theory Spec2Isabelle
  imports Complex_Main
begin

section \<open>Python values used by the two scripts\<close>

text \<open>
  The scripts read one text blob from standard input. A Python \<open>str\<close> is modelled as a
  \<open>string\<close>, one \<open>char\<close> per code point (code points 0 to 255). An uncaught exception ends
  the process with a trace and a non-zero status; it is the \<open>Inl\<close> branch of a result.
  What a function printed before it returned or raised is kept beside its result, one
  list entry per call of \<open>print\<close>.
\<close>

datatype py_error = ValueError | IndexError | TypeError

type_synonym 'a printed = "string list \<times> (py_error + 'a)"

subsection \<open>\<open>str.strip\<close> and \<open>str.split\<close>\<close>

text \<open>
  \<open>str.isspace\<close> on the code points below 256: tab, line feed, vertical tab, form feed,
  carriage return, the four separators 28 to 31, space, next line (133) and no-break
  space (160).
\<close>

definition isspace :: "char \<Rightarrow> bool" where
  "isspace c = ((of_char c :: nat) \<in> {9, 10, 11, 12, 13, 28, 29, 30, 31, 32, 133, 160})"

definition strip :: "string \<Rightarrow> string" where
  "strip s = rev (dropWhile isspace (rev (dropWhile isspace s)))"

text \<open>
  \<open>s.split(sep)\<close> with a one-character separator: the pieces between the occurrences of
  the separator, empty pieces included; the result is never empty.
\<close>

fun split_py :: "char \<Rightarrow> string \<Rightarrow> string list" where
  "split_py sep [] = [[]]"
| "split_py sep (c # cs) =
     (if c = sep then [] # split_py sep cs
      else (case split_py sep cs of
              [] \<Rightarrow> [[c]]
            | w # ws \<Rightarrow> (c # w) # ws))"

text \<open>\<open>sep.join(xs)\<close>.\<close>

fun join :: "string \<Rightarrow> string list \<Rightarrow> string" where
  "join sep [] = []"
| "join sep [x] = x"
| "join sep (x # y # ys) = x @ sep @ join sep (y # ys)"

subsection \<open>\<open>int(str)\<close>\<close>

text \<open>
  The whitespace that \<open>int\<close> and \<open>float\<close> drop around a number is narrower than that of
  \<open>str.strip\<close>: tab, line feed, vertical tab, form feed, carriage return and space,
  and the whitespace beyond ASCII (next line and no-break space), which is turned into
  spaces first. The separators 28 to 31 stay and make the number invalid.
\<close>

definition number_space :: "char \<Rightarrow> bool" where
  "number_space c = ((of_char c :: nat) \<in> {9, 10, 11, 12, 13, 32, 133, 160})"

definition strip_number :: "string \<Rightarrow> string" where
  "strip_number s = rev (dropWhile number_space (rev (dropWhile number_space s)))"

definition isdigit :: "char \<Rightarrow> bool" where
  "isdigit c = (48 \<le> (of_char c :: nat) \<and> (of_char c :: nat) \<le> 57)"

definition digit_val :: "char \<Rightarrow> int" where
  "digit_val c = of_char c - 48"

definition dec_value :: "string \<Rightarrow> int" where
  "dec_value ds = foldl (\<lambda>n c. 10 * n + digit_val c) 0 ds"

text \<open>
  The longest prefix of the form \<open>digit (["_"] digit)*\<close>: its digits, without the
  underscores, and the rest of the string.
\<close>

fun digitpart :: "string \<Rightarrow> string \<times> string" where
  "digitpart [] = ([], [])"
| "digitpart (c # cs) =
     (if \<not> isdigit c then ([], c # cs)
      else (case (case cs of
                    u # d # r \<Rightarrow>
                      if u = CHR ''_'' \<and> isdigit d then digitpart (d # r) else digitpart cs
                  | _ \<Rightarrow> digitpart cs) of
              (ds, rest) \<Rightarrow> (c # ds, rest)))"

text \<open>An optional sign: whether it was a minus, and what follows it.\<close>

fun take_sign :: "string \<Rightarrow> bool \<times> string" where
  "take_sign [] = (False, [])"
| "take_sign (c # cs) =
     (if c = CHR ''-'' then (True, cs)
      else if c = CHR ''+'' then (False, cs)
      else (False, c # cs))"

text \<open>
  \<open>int(s)\<close> in base ten: surrounding whitespace is dropped, then an optional sign and a
  digit part must make up the whole string; anything else is a \<open>ValueError\<close> (\<open>None\<close>).
\<close>

definition py_int :: "string \<Rightarrow> int option" where
  "py_int s =
     (case take_sign (strip_number s) of
        (neg, body) \<Rightarrow>
          (case digitpart body of
             (ds, rest) \<Rightarrow>
               if ds = [] \<or> rest \<noteq> [] then None
               else Some (if neg then - dec_value ds else dec_value ds)))"

subsection \<open>\<open>float(str)\<close>\<close>

text \<open>
  A Python float is an IEEE 754 binary64: a sign bit with a magnitude that is a
  non-negative rational (zero has a sign too), an infinity with its sign, or a NaN.
\<close>

datatype pyfloat = Float bool rat | Inf bool | NaN

text \<open>\<open>n.bit_length()\<close>.\<close>

function bit_length :: "int \<Rightarrow> int" where
  "bit_length n = (if n = 0 then 0 else 1 + bit_length (\<bar>n\<bar> div 2))"
  by pat_completeness auto
termination
  by (relation "measure (\<lambda>n. nat \<bar>n\<bar>)") auto

definition round_half_even :: "rat \<Rightarrow> int" where
  "round_half_even q =
     (let f = \<lfloor>q\<rfloor>; d = q - of_int f
      in if d < 1 / 2 then f
         else if 1 / 2 < d then f + 1
         else if even f then f else f + 1)"

text \<open>The exponent \<open>e\<close> with \<open>2 ^ e \<le> q < 2 ^ (e + 1)\<close>, for a positive rational.\<close>

definition ilog2 :: "rat \<Rightarrow> int" where
  "ilog2 q =
     (case quotient_of q of
        (a, b) \<Rightarrow>
          (let k = bit_length a - bit_length b
           in if power_int 2 k \<le> q then k else k - 1))"

text \<open>
  Rounding a non-negative rational to the nearest binary64, ties to even: 53 bits of
  precision, exponents from -1022 (below that the spacing stays \<open>2 ^ -1074\<close>), and
  overflow to infinity when the rounded value reaches \<open>2 ^ 1024\<close>, that is when its
  exponent is above 1023.
\<close>

definition round_binary64 :: "bool \<Rightarrow> rat \<Rightarrow> pyfloat" where
  "round_binary64 neg q =
     (if q = 0 then Float neg 0
      else (let e = max (ilog2 q) (- 1022);
                ulp = power_int 2 (e - 52);
                v = of_int (round_half_even (q / ulp)) * ulp
            in if 1023 < ilog2 v then Inf neg else Float neg v))"

definition lower :: "char \<Rightarrow> char" where
  "lower c = (if 65 \<le> (of_char c :: nat) \<and> (of_char c :: nat) \<le> 90
              then char_of ((of_char c :: nat) + 32) else c)"

text \<open>The exponent part \<open>("e" | "E") [sign] digitpart\<close>, when there is one.\<close>

definition exponent :: "string \<Rightarrow> (int \<times> string) option" where
  "exponent s =
     (case s of
        [] \<Rightarrow> Some (0, [])
      | c # cs \<Rightarrow>
          if c = CHR ''e'' \<or> c = CHR ''E'' then
            (case take_sign cs of
               (neg, body) \<Rightarrow>
                 (case digitpart body of
                    (ds, rest) \<Rightarrow>
                      if ds = [] then None
                      else Some (if neg then - dec_value ds else dec_value ds, rest)))
          else Some (0, c # cs))"

text \<open>
  \<open>float(s)\<close>: surrounding whitespace is dropped; then an optional sign and either
  \<open>inf\<close>, \<open>infinity\<close> or \<open>nan\<close> in any case, or a number
  \<open>[digitpart] "." digitpart | digitpart ["."]\<close> with an optional exponent.
  Anything else is a \<open>ValueError\<close> (\<open>None\<close>).
\<close>

definition fraction :: "string \<Rightarrow> string \<times> string" where
  "fraction r1 =
     (case r1 of
        [] \<Rightarrow> ([], [])
      | c # r \<Rightarrow> if c = CHR ''.'' then digitpart r else ([], r1))"

definition floatnumber :: "bool \<Rightarrow> string \<Rightarrow> pyfloat option" where
  "floatnumber neg body =
     (case digitpart body of
        (ip, r1) \<Rightarrow>
          (case fraction r1 of
             (fp, r2) \<Rightarrow>
               if ip = [] \<and> fp = [] then None
               else
                 (case exponent r2 of
                    None \<Rightarrow> None
                  | Some (ex, r3) \<Rightarrow>
                      if r3 \<noteq> [] then None
                      else Some (round_binary64 neg
                             (of_int (dec_value (ip @ fp))
                               * power_int 10 (ex - int (length fp)))))))"

definition py_float :: "string \<Rightarrow> pyfloat option" where
  "py_float s =
     (case take_sign (strip_number s) of
        (neg, body) \<Rightarrow>
          if map lower body = ''inf'' \<or> map lower body = ''infinity'' then Some (Inf neg)
          else if map lower body = ''nan'' then Some NaN
          else floatnumber neg body)"

text \<open>\<open>coeff *= -1\<close> on a float flips the sign bit; a NaN stays a NaN.\<close>

fun negate :: "pyfloat \<Rightarrow> pyfloat" where
  "negate (Float s m) = Float (\<not> s) m"
| "negate (Inf s) = Inf (\<not> s)"
| "negate NaN = NaN"

section \<open>The Hamiltonian text parser\<close>

subsection \<open>Operators of the framework\<close>

text \<open>
  The framework's observables are kept as syntax: the four single-qubit operators with
  their wire, and \<open>a @ b\<close> as \<open>Matmul a b\<close>. A Hamiltonian holds the two lists it was
  built from; its constructor refuses lists of different lengths with a \<open>ValueError\<close>.
\<close>

datatype operator =
    Identity int
  | PauliX int
  | PauliY int
  | PauliZ int
  | Matmul operator operator

record hamiltonian =
  H_coeffs :: "pyfloat list"
  H_ops :: "operator list"

definition qml_Hamiltonian :: "pyfloat list \<Rightarrow> operator list \<Rightarrow> py_error + hamiltonian" where
  "qml_Hamiltonian cs os =
     (if length cs \<noteq> length os then Inl ValueError
      else Inr \<lparr>H_coeffs = cs, H_ops = os\<rparr>)"

subsection \<open>\<open>pauli_token_to_operator\<close>\<close>

text \<open>
  The first loop of \<open>pauli_token_to_operator\<close>, over the tokens that are left, with the
  list \<open>qubit_terms\<close> built so far. \<open>term[0]\<close> raises \<open>IndexError\<close> on an empty token,
  \<open>int(qubit_idx)\<close> raises \<open>ValueError\<close>, and it is evaluated only under the letters
  X, Y and Z. Any other token prints a line and the loop goes on.
\<close>

fun qubit_terms_loop :: "string list \<Rightarrow> operator list \<Rightarrow> operator list printed" where
  "qubit_terms_loop [] qubit_terms = ([], Inr qubit_terms)"
| "qubit_terms_loop (term # rest) qubit_terms =
     (if term = ''I'' then qubit_terms_loop rest (qubit_terms @ [Identity 0])
      else
        (case term of
           [] \<Rightarrow> ([], Inl IndexError)
         | pauli # qubit_idx \<Rightarrow>
             if pauli = CHR ''X'' then
               (case py_int qubit_idx of
                  None \<Rightarrow> ([], Inl ValueError)
                | Some i \<Rightarrow> qubit_terms_loop rest (qubit_terms @ [PauliX i]))
             else if pauli = CHR ''Y'' then
               (case py_int qubit_idx of
                  None \<Rightarrow> ([], Inl ValueError)
                | Some i \<Rightarrow> qubit_terms_loop rest (qubit_terms @ [PauliY i]))
             else if pauli = CHR ''Z'' then
               (case py_int qubit_idx of
                  None \<Rightarrow> ([], Inl ValueError)
                | Some i \<Rightarrow> qubit_terms_loop rest (qubit_terms @ [PauliZ i]))
             else
               (case qubit_terms_loop rest qubit_terms of
                  (out, r) \<Rightarrow> (''Invalid input.'' # out, r))))"

text \<open>
  \<open>full_term = qubit_terms[0]\<close> raises \<open>IndexError\<close> on an empty list; the second loop
  multiplies the other operators on from the left to the right.
\<close>

definition pauli_token_to_operator :: "string list \<Rightarrow> operator printed" where
  "pauli_token_to_operator token =
     (case qubit_terms_loop token [] of
        (out, Inl e) \<Rightarrow> (out, Inl e)
      | (out, Inr qubit_terms) \<Rightarrow>
          (case qubit_terms of
             [] \<Rightarrow> (out, Inl IndexError)
           | q # qs \<Rightarrow> (out, Inr (foldl Matmul q qs))))"

subsection \<open>\<open>parse_hamiltonian_input\<close>\<close>

text \<open>
  The body of the loop over the pieces of the input: the piece is stripped and split at
  spaces; \<open>tokens[0]\<close> always exists, \<open>tokens[1]\<close> raises \<open>IndexError\<close> when there is one
  token only; \<open>float(value)\<close> raises \<open>ValueError\<close>; the coefficient is negated when the
  sign token is \<open>"-"\<close>; the tokens from the third on go to \<open>pauli_token_to_operator\<close>.
\<close>

definition parse_term :: "string \<Rightarrow> (pyfloat \<times> operator) printed" where
  "parse_term line =
     (case split_py CHR '' '' (strip line) of
        sign # value # pauli \<Rightarrow>
          (case py_float value of
             None \<Rightarrow> ([], Inl ValueError)
           | Some coeff \<Rightarrow>
               (case pauli_token_to_operator pauli of
                  (out, Inl e) \<Rightarrow> (out, Inl e)
                | (out, Inr full_term) \<Rightarrow>
                    (out, Inr (if sign = ''-'' then negate coeff else coeff, full_term))))
      | _ \<Rightarrow> ([], Inl IndexError))"

text \<open>The loop itself, with the lists \<open>coeffs\<close> and \<open>pauli_terms\<close> built so far.\<close>

fun parse_loop ::
  "string list \<Rightarrow> pyfloat list \<Rightarrow> operator list \<Rightarrow> (pyfloat list \<times> operator list) printed" where
  "parse_loop [] coeffs pauli_terms = ([], Inr (coeffs, pauli_terms))"
| "parse_loop (line # rest) coeffs pauli_terms =
     (case parse_term line of
        (out, Inl e) \<Rightarrow> (out, Inl e)
      | (out, Inr (coeff, full_term)) \<Rightarrow>
          (case parse_loop rest (coeffs @ [coeff]) (pauli_terms @ [full_term]) of
             (out', r) \<Rightarrow> (out @ out', r)))"

definition parse_hamiltonian_input :: "string \<Rightarrow> hamiltonian printed" where
  "parse_hamiltonian_input input_data =
     (case parse_loop (split_py CHR ''S'' input_data) [] [] of
        (out, Inl e) \<Rightarrow> (out, Inl e)
      | (out, Inr (coeffs, pauli_terms)) \<Rightarrow> (out, qml_Hamiltonian coeffs pauli_terms))"

section \<open>The rotation script\<close>

text \<open>
  The framework simulates one qubit, started in the state \<open>|0>\<close>. Its operations are
  taken with their mathematical meaning over the reals: a state is the pair of the
  amplitudes of \<open>|0>\<close> and \<open>|1>\<close>, \<open>RY\<close> is the rotation matrix of the angle, and the
  expectation value of \<open>PauliX\<close> in the state \<open>(a, b)\<close> is \<open>conj a * b + conj b * a\<close>.
\<close>

type_synonym qubit = "complex \<times> complex"

definition ket0 :: qubit where
  "ket0 = (1, 0)"

definition RY :: "real \<Rightarrow> qubit \<Rightarrow> qubit" where
  "RY theta q =
     (case q of
        (a, b) \<Rightarrow>
          (of_real (cos (theta / 2)) * a - of_real (sin (theta / 2)) * b,
           of_real (sin (theta / 2)) * a + of_real (cos (theta / 2)) * b))"

definition expval_PauliX :: "qubit \<Rightarrow> real" where
  "expval_PauliX q = (case q of (a, b) \<Rightarrow> Re (cnj a * b + cnj b * a))"

text \<open>
  What the script tests with \<open>isinstance\<close>: a tensor of the framework, which is what a
  circuit returns, a float, or any other value.
\<close>

datatype py_value = Tensor real | PyFloat real | PyOther

definition simplecircuit :: "real \<Rightarrow> py_value" where
  "simplecircuit param = Tensor (expval_PauliX (RY param ket0))"

definition simple_circuits_30 :: "real \<Rightarrow> py_value" where
  "simple_circuits_30 angle = simplecircuit angle"

text \<open>The real number a finite float stands for.\<close>

definition real_of_float :: "bool \<Rightarrow> rat \<Rightarrow> real" where
  "real_of_float s m = (if s then - of_rat m else of_rat m)"

text \<open>
  The script: the whole input goes to \<open>float\<close>, which may raise \<open>ValueError\<close>; a tensor
  is replaced by its \<open>item()\<close>, a float; anything that is not a float then raises
  \<open>TypeError\<close>, and the float is printed. What the framework makes of an infinite or NaN
  angle (an exception, or a line such as \<open>nan\<close>) is the parameter \<open>nonfinite\<close>, and
  \<open>str_float\<close> is the text \<open>print\<close> writes for a float.
\<close>

definition main_simple_circuits ::
  "(py_error + string) \<Rightarrow> (real \<Rightarrow> string) \<Rightarrow> string \<Rightarrow> unit printed" where
  "main_simple_circuits nonfinite str_float angle_str =
     (case py_float angle_str of
        None \<Rightarrow> ([], Inl ValueError)
      | Some (Float s m) \<Rightarrow>
          (case (case simple_circuits_30 (real_of_float s m) of
                   Tensor x \<Rightarrow> PyFloat x
                 | ans \<Rightarrow> ans) of
             PyFloat x \<Rightarrow> ([str_float x], Inr ())
           | _ \<Rightarrow> ([], Inl TypeError))
      | Some _ \<Rightarrow>
          (case nonfinite of
             Inl e \<Rightarrow> ([], Inl e)
           | Inr line \<Rightarrow> ([line], Inr ())))"

section \<open>The eigensolver script\<close>

text \<open>
  \<open>find_excited_states\<close> leaves the simulation, the gradients, the optimiser and the random
  numbers to the framework. They are the fields of a record: \<open>random_uniform\<close> draws the
  parameters of a given number of layers and qubits from a generator state, \<open>energy\<close> is
  \<open>qml.ExpvalCost\<close> of the ansatz and the Hamiltonian, \<open>overlap\<close> is the overlap circuit for
  a number of qubits, \<open>step_and_cost\<close> is one step of the momentum optimiser on its own
  state, and \<open>str_float\<close> is \<open>str\<close> on a float. Costs and energies are real numbers.
\<close>

record ('p, 'g, 'o) framework =
  random_uniform :: "nat \<Rightarrow> nat \<Rightarrow> 'g \<Rightarrow> 'p \<times> 'g"
  energy :: "hamiltonian \<Rightarrow> 'p \<Rightarrow> real"
  overlap :: "nat \<Rightarrow> 'p \<Rightarrow> 'p \<Rightarrow> real"
  step_and_cost :: "('p \<Rightarrow> real) \<Rightarrow> 'p \<Rightarrow> 'o \<Rightarrow> ('p \<times> real) \<times> 'o"
  str_float :: "real \<Rightarrow> string"

fun wires :: "operator \<Rightarrow> int list" where
  "wires (Identity w) = [w]"
| "wires (PauliX w) = [w]"
| "wires (PauliY w) = [w]"
| "wires (PauliZ w) = [w]"
| "wires (Matmul a b) = wires a @ wires b"

text \<open>\<open>len(H.wires)\<close>: the number of different wires of the operators.\<close>

definition num_qubits :: "hamiltonian \<Rightarrow> nat" where
  "num_qubits H = length (remdups (concat (map wires (H_ops H))))"

definition overlap_weight :: real where
  "overlap_weight = 50"

definition num_layers :: nat where
  "num_layers = 2"

definition num_iter :: nat where
  "num_iter = 500"

definition num_eigen :: nat where
  "num_eigen = 3"

definition threshold :: real where
  "threshold = 1 / 10 ^ 8"

definition cost_fn ::
  "('p, 'g, 'o) framework \<Rightarrow> hamiltonian \<Rightarrow> 'p \<Rightarrow> 'p list \<Rightarrow> real" where
  "cost_fn F H params overlap_params =
     foldl (\<lambda>cost i. cost + overlap_weight * overlap F (num_qubits H) params i)
       (energy F H params) overlap_params"

text \<open>
  The inner loop, with the number of iterations that are left: one step of the
  optimiser, the cost at the new parameters, and \<open>break\<close> when the cost moved by less
  than the threshold.
\<close>

fun vqe_iterations ::
  "('p, 'g, 'o) framework \<Rightarrow> nat \<Rightarrow> ('p \<Rightarrow> real) \<Rightarrow> 'p \<Rightarrow> 'o \<Rightarrow> 'p \<times> 'o" where
  "vqe_iterations F 0 cost_of params opt = (params, opt)"
| "vqe_iterations F (Suc n) cost_of params opt =
     (case step_and_cost F cost_of params opt of
        ((params', prev_cost), opt') \<Rightarrow>
          if \<bar>cost_of params' - prev_cost\<bar> < threshold then (params', opt')
          else vqe_iterations F n cost_of params' opt')"

text \<open>
  The outer loop over the indices that are left: fresh random parameters, the inner loop
  against the parameters found before, \<open>energies[i] = energy(params)\<close>, and the
  parameters appended to \<open>prev_params\<close>.
\<close>

fun vqe_loop ::
  "('p, 'g, 'o) framework \<Rightarrow> hamiltonian \<Rightarrow> nat list \<Rightarrow> real list \<Rightarrow> 'p list \<Rightarrow> 'g \<Rightarrow> 'o
    \<Rightarrow> real list" where
  "vqe_loop F H [] energies prev_params rng opt = energies"
| "vqe_loop F H (i # rest) energies prev_params rng opt =
     (case random_uniform F num_layers (num_qubits H) rng of
        (params0, rng') \<Rightarrow>
          (case vqe_iterations F num_iter (\<lambda>x. cost_fn F H x prev_params) params0 opt of
             (params, opt') \<Rightarrow>
               vqe_loop F H rest (energies[i := energy F H params])
                 (prev_params @ [params]) rng' opt'))"

text \<open>The array \<open>energies\<close> when the loop is over, from \<open>np.zeros(3)\<close>.\<close>

definition found_energies ::
  "('p, 'g, 'o) framework \<Rightarrow> 'g \<Rightarrow> 'o \<Rightarrow> hamiltonian \<Rightarrow> real list" where
  "found_energies F rng opt H = vqe_loop F H [0..<num_eigen] (replicate 3 0) [] rng opt"

definition find_excited_states ::
  "('p, 'g, 'o) framework \<Rightarrow> 'g \<Rightarrow> 'o \<Rightarrow> hamiltonian \<Rightarrow> string" where
  "find_excited_states F rng opt H = join '','' (map (str_float F) (found_energies F rng opt H))"

text \<open>The script: parse the input, solve, print the string.\<close>

definition main_vqe :: "('p, 'g, 'o) framework \<Rightarrow> 'g \<Rightarrow> 'o \<Rightarrow> string \<Rightarrow> unit printed" where
  "main_vqe F rng opt input_data =
     (case parse_hamiltonian_input input_data of
        (out, Inl e) \<Rightarrow> (out, Inl e)
      | (out, Inr H) \<Rightarrow> (out @ [find_excited_states F rng opt H], Inr ()))"

section \<open>Notions used to state the properties\<close>

text \<open>
  A malformed Pauli token, in the words of the specification: it is not exactly \<open>"I"\<close>
  and its first character is none of X, Y and Z. The empty token has no first
  character and is not counted.
\<close>

definition malformed :: "string \<Rightarrow> bool" where
  "malformed t =
     (t \<noteq> ''I'' \<and>
      (case t of [] \<Rightarrow> False | c # _ \<Rightarrow> c \<noteq> CHR ''X'' \<and> c \<noteq> CHR ''Y'' \<and> c \<noteq> CHR ''Z''))"

text \<open>A decimal qubit index: one decimal digit or more.\<close>

definition decimal_index :: "string \<Rightarrow> bool" where
  "decimal_index ds = (ds \<noteq> [] \<and> list_all isdigit ds)"

text \<open>
  A decimal string: decimal digits with at most one point among them, and one digit at
  least.
\<close>

definition decimal_string :: "string \<Rightarrow> bool" where
  "decimal_string s =
     (case dropWhile isdigit s of
        [] \<Rightarrow> s \<noteq> []
      | c # r \<Rightarrow> c = CHR ''.'' \<and> list_all isdigit r \<and> (takeWhile isdigit s \<noteq> [] \<or> r \<noteq> []))"

text \<open>A literal that carries no minus sign of its own.\<close>

definition unsigned_literal :: "string \<Rightarrow> bool" where
  "unsigned_literal v = (case strip_number v of [] \<Rightarrow> True | c # _ \<Rightarrow> c \<noteq> CHR ''-'')"

text \<open>The sign bit of a float; a NaN counts as unsigned.\<close>

fun signbit :: "pyfloat \<Rightarrow> bool" where
  "signbit (Float s m) = s"
| "signbit (Inf s) = s"
| "signbit NaN = False"

text \<open>
  What one token does to the first loop of \<open>pauli_token_to_operator\<close>: it raises, it
  appends an operator, or it only prints the diagnostic line (\<open>Inr None\<close>).
\<close>

definition token_result :: "string \<Rightarrow> py_error + operator option" where
  "token_result t =
     (if t = ''I'' then Inr (Some (Identity 0))
      else
        (case t of
           [] \<Rightarrow> Inl IndexError
         | pauli # qubit_idx \<Rightarrow>
             if pauli = CHR ''X'' then
               (case py_int qubit_idx of None \<Rightarrow> Inl ValueError | Some i \<Rightarrow> Inr (Some (PauliX i)))
             else if pauli = CHR ''Y'' then
               (case py_int qubit_idx of None \<Rightarrow> Inl ValueError | Some i \<Rightarrow> Inr (Some (PauliY i)))
             else if pauli = CHR ''Z'' then
               (case py_int qubit_idx of None \<Rightarrow> Inl ValueError | Some i \<Rightarrow> Inr (Some (PauliZ i)))
             else Inr None))"

text \<open>The tokens of a piece of the input, and its Pauli tokens.\<close>

definition tokens_of :: "string \<Rightarrow> string list" where
  "tokens_of line = split_py CHR '' '' (strip line)"

text \<open>How many lines \<open>Invalid input.\<close> a successful parse of the input prints.\<close>

definition malformed_count :: "string \<Rightarrow> nat" where
  "malformed_count input_data =
     sum_list (map (\<lambda>line. length (filter malformed (drop 2 (tokens_of line))))
       (split_py CHR ''S'' input_data))"

section \<open>A stand-in for the framework on one qubit\<close>

text \<open>
  To run the eigensolver script on concrete inputs the framework is replaced by an exact
  search over the two basis states of one qubit: the parameters are the basis state
  (\<open>True\<close> for \<open>|1>\<close>), the energy is the expectation value of the Hamiltonian in that
  state, the overlap of two states is 1 when they are equal and 0 otherwise, the random
  start is \<open>|0>\<close>, and a step of the optimiser moves to the state of least cost and
  returns the cost of the state it left.
\<close>

fun basis_expval :: "bool \<Rightarrow> operator \<Rightarrow> real" where
  "basis_expval p (Identity w) = 1"
| "basis_expval p (PauliX w) = 0"
| "basis_expval p (PauliY w) = 0"
| "basis_expval p (PauliZ w) = (if p then - 1 else 1)"
| "basis_expval p (Matmul a b) = basis_expval p a * basis_expval p b"

fun float_value :: "pyfloat \<Rightarrow> real" where
  "float_value (Float s m) = real_of_float s m"
| "float_value (Inf s) = 0"
| "float_value NaN = 0"

definition basis_energy :: "hamiltonian \<Rightarrow> bool \<Rightarrow> real" where
  "basis_energy H p =
     sum_list (map2 (\<lambda>c op. float_value c * basis_expval p op) (H_coeffs H) (H_ops H))"

definition basis_step :: "(bool \<Rightarrow> real) \<Rightarrow> bool \<Rightarrow> unit \<Rightarrow> (bool \<times> real) \<times> unit" where
  "basis_step cost_of params opt = ((cost_of True < cost_of False, cost_of params), opt)"

definition basis_framework :: "(real \<Rightarrow> string) \<Rightarrow> (bool, unit, unit) framework" where
  "basis_framework str =
     \<lparr>random_uniform = (\<lambda>layers qubits rng. (False, rng)),
      energy = basis_energy,
      overlap = (\<lambda>n p q. if p = q then 1 else 0),
      step_and_cost = basis_step,
      str_float = str\<rparr>"

text \<open>\<open>str\<close> on the floats -1.0, 0.0 and 1.0, the values of the runs below.\<close>

definition str_unit :: "real \<Rightarrow> string" where
  "str_unit x = (if x < 0 then ''-1.0'' else if x = 0 then ''0.0'' else ''1.0'')"

section \<open>The input format of the specification\<close>

text \<open>
  A Pauli token in the words of the specification: one of the letters X, Y, Z and I
  followed by a decimal qubit index.
\<close>

definition grammar_pauli_token :: "string \<Rightarrow> bool" where
  "grammar_pauli_token t =
     (case t of
        [] \<Rightarrow> False
      | c # ds \<Rightarrow>
          (c = CHR ''X'' \<or> c = CHR ''Y'' \<or> c = CHR ''Z'' \<or> c = CHR ''I'') \<and> decimal_index ds)"

text \<open>
  The Pauli tokens that give an operator: one of the letters X, Y and Z followed by a
  decimal qubit index, or the bare letter I.
\<close>

definition accepted_pauli_token :: "string \<Rightarrow> bool" where
  "accepted_pauli_token t =
     (t = ''I'' \<or>
      (case t of
         [] \<Rightarrow> False
       | c # ds \<Rightarrow> (c = CHR ''X'' \<or> c = CHR ''Y'' \<or> c = CHR ''Z'') \<and> decimal_index ds))"

text \<open>
  A well-formed term, for a given notion of Pauli token: a sign token \<open>"+"\<close> or \<open>"-"\<close>,
  a magnitude token that is a decimal string, and one Pauli token or more.
\<close>

definition well_formed_term :: "(string \<Rightarrow> bool) \<Rightarrow> string \<Rightarrow> bool" where
  "well_formed_term pauli_token line =
     (case tokens_of line of
        sign # value # pauli \<Rightarrow>
          (sign = ''+'' \<or> sign = ''-'') \<and> decimal_string value \<and>
          pauli \<noteq> [] \<and> list_all pauli_token pauli
      | _ \<Rightarrow> False)"

text \<open>
  The rational number a decimal string denotes: its digits read as an integer, over ten
  to the number of digits behind the point.
\<close>

definition decimal_rat :: "string \<Rightarrow> rat" where
  "decimal_rat s =
     of_int (dec_value (filter isdigit s)) / 10 ^ length (tl (dropWhile isdigit s))"

text \<open>The operator an accepted Pauli token denotes, and the product of a term's tokens.\<close>

definition token_operator :: "string \<Rightarrow> operator" where
  "token_operator t =
     (case t of
        [] \<Rightarrow> Identity 0
      | c # ds \<Rightarrow>
          if c = CHR ''X'' then PauliX (dec_value ds)
          else if c = CHR ''Y'' then PauliY (dec_value ds)
          else if c = CHR ''Z'' then PauliZ (dec_value ds)
          else Identity 0)"

definition term_operator :: "string list \<Rightarrow> operator" where
  "term_operator pauli =
     (case pauli of
        [] \<Rightarrow> Identity 0
      | p # ps \<Rightarrow> foldl Matmul (token_operator p) (map token_operator ps))"

text \<open>
  The pair a well-formed term denotes: the float nearest to the magnitude, with the sign
  bit set exactly when the sign token is \<open>"-"\<close>, and the operator of the Pauli tokens.
\<close>

definition term_pair :: "string \<Rightarrow> pyfloat \<times> operator" where
  "term_pair line =
     (case tokens_of line of
        sign # value # pauli \<Rightarrow>
          (round_binary64 (sign = ''-'') (decimal_rat value), term_operator pauli)
      | _ \<Rightarrow> (NaN, Identity 0))"

text \<open>A float that is greater than zero.\<close>

fun positive :: "pyfloat \<Rightarrow> bool" where
  "positive (Float s m) = (\<not> s \<and> 0 < m)"
| "positive (Inf s) = (\<not> s)"
| "positive NaN = False"

section \<open>Properties of the rotation script\<close>

lemma simple_circuits_30_sin: "simple_circuits_30 angle = Tensor (sin angle)"
proof -
  have "2 * (cos (angle / 2) * sin (angle / 2)) = sin angle"
    using sin_double [of "angle / 2"] by (simp add: mult.commute)
  then show ?thesis
    by (simp add: simple_circuits_30_def simplecircuit_def expval_PauliX_def RY_def ket0_def)
qed

text \<open>
  Claim C8. For the rotation angle 0 the function \<open>simple_circuits_30\<close> returns the tensor
  of the value 0: the qubit stays in \<open>|0>\<close>, where the expectation value of \<open>PauliX\<close> is
  zero.
\<close>

theorem simple_circuits_30_zero: "simple_circuits_30 0 = Tensor 0"
  by (simp add: simple_circuits_30_def simplecircuit_def expval_PauliX_def RY_def ket0_def)

section \<open>Properties of the parser\<close>

subsection \<open>The loop over the tokens\<close>

lemma split_py_nonempty: "split_py sep s \<noteq> []"
  by (induction s) (auto split: list.splits)

lemma qubit_terms_loop_Cons:
  "qubit_terms_loop (t # rest) qs =
     (case token_result t of
        Inl e \<Rightarrow> ([], Inl e)
      | Inr (Some q) \<Rightarrow> qubit_terms_loop rest (qs @ [q])
      | Inr None \<Rightarrow>
          (case qubit_terms_loop rest qs of (out, r) \<Rightarrow> (''Invalid input.'' # out, r)))"
  by (cases t) (auto simp: token_result_def split: option.splits)

lemma token_result_malformed: "token_result t = Inr None \<longleftrightarrow> malformed t"
  by (cases t) (auto simp: token_result_def malformed_def split: option.splits)

lemma qubit_terms_loop_append:
  "qubit_terms_loop (xs @ ys) qs =
     (case qubit_terms_loop xs qs of
        (o1, Inl e) \<Rightarrow> (o1, Inl e)
      | (o1, Inr qs') \<Rightarrow> (case qubit_terms_loop ys qs' of (o2, r) \<Rightarrow> (o1 @ o2, r)))"
proof (induction xs arbitrary: qs)
  case Nil
  then show ?case by (simp split: prod.splits)
next
  case (Cons t xs)
  show ?case
  proof (cases "token_result t")
    case (Inl e)
    then show ?thesis by (simp add: qubit_terms_loop_Cons del: qubit_terms_loop.simps)
  next
    case (Inr q)
    then show ?thesis
      by (cases q)
         (simp_all add: qubit_terms_loop_Cons Cons.IH del: qubit_terms_loop.simps
            split: prod.splits sum.splits)
  qed
qed

lemma qubit_terms_loop_printed:
  "qubit_terms_loop ts qs = (out, Inr r) \<Longrightarrow>
   out = replicate (length (filter malformed ts)) ''Invalid input.''"
proof (induction ts arbitrary: qs out)
  case Nil
  then show ?case by simp
next
  case (Cons t ts)
  show ?case
  proof (cases "token_result t")
    case (Inl e)
    with Cons.prems show ?thesis
      by (simp add: qubit_terms_loop_Cons del: qubit_terms_loop.simps)
  next
    case (Inr q)
    show ?thesis
    proof (cases q)
      case None
      with Inr have m: "malformed t" by (simp add: token_result_malformed)
      from Cons.prems Inr None obtain out' where
        "qubit_terms_loop ts qs = (out', Inr r)" and "out = ''Invalid input.'' # out'"
        by (auto simp: qubit_terms_loop_Cons simp del: qubit_terms_loop.simps split: prod.splits)
      with Cons.IH m show ?thesis by simp
    next
      case (Some a)
      with Inr have "\<not> malformed t"
        using token_result_malformed [of t] by simp
      moreover from Cons.prems Inr Some have "qubit_terms_loop ts (qs @ [a]) = (out, Inr r)"
        by (simp add: qubit_terms_loop_Cons del: qubit_terms_loop.simps)
      ultimately show ?thesis using Cons.IH by simp
    qed
  qed
qed

lemma qubit_terms_loop_lines:
  "set (fst (qubit_terms_loop ts qs)) \<subseteq> {''Invalid input.''}"
proof (induction ts arbitrary: qs)
  case Nil
  then show ?case by simp
next
  case (Cons t ts)
  show ?case
  proof (cases "token_result t")
    case (Inl e)
    then show ?thesis by (simp add: qubit_terms_loop_Cons del: qubit_terms_loop.simps)
  next
    case (Inr q)
    show ?thesis
    proof (cases q)
      case None
      with Inr Cons.IH [of qs] show ?thesis
        by (auto simp: qubit_terms_loop_Cons simp del: qubit_terms_loop.simps split: prod.splits)
    next
      case (Some a)
      with Inr Cons.IH [of "qs @ [a]"] show ?thesis
        by (simp add: qubit_terms_loop_Cons del: qubit_terms_loop.simps)
    qed
  qed
qed

subsection \<open>Qubit indices and single tokens\<close>

lemma isdigit_plain:
  "isdigit c \<Longrightarrow> c \<noteq> CHR ''_'' \<and> c \<noteq> CHR ''-'' \<and> c \<noteq> CHR ''+'' \<and> \<not> number_space c"
  by (auto simp: isdigit_def number_space_def)

lemma digitpart_digits: "list_all isdigit ds \<Longrightarrow> digitpart ds = (ds, [])"
proof (induction ds)
  case Nil
  then show ?case by simp
next
  case (Cons c cs)
  then have IH: "digitpart cs = (cs, [])" and c: "isdigit c" and cs: "list_all isdigit cs"
    by simp_all
  show ?case
  proof (cases cs)
    case Nil
    with c show ?thesis by simp
  next
    case (Cons u r)
    with cs have "u \<noteq> CHR ''_''" using isdigit_plain [of u] by simp
    with c IH Cons show ?thesis by (simp split: list.splits)
  qed
qed

lemma strip_number_digits: "list_all isdigit ds \<Longrightarrow> strip_number ds = ds"
proof (cases ds)
  case Nil
  then show ?thesis by (simp add: strip_number_def)
next
  case (Cons c cs)
  assume d: "list_all isdigit ds"
  with Cons have "\<not> number_space (hd ds)" using isdigit_plain [of c] by simp
  then have 1: "dropWhile number_space ds = ds" by (simp add: dropWhile_eq_self_iff)
  from Cons have ne: "ds \<noteq> []" by simp
  with d have "isdigit (last ds)"
    by (metis last_in_set list_all_iff)
  then have "\<not> number_space (last ds)" using isdigit_plain by blast
  with ne have "\<not> number_space (hd (rev ds))" by (simp add: hd_rev)
  then have "dropWhile number_space (rev ds) = rev ds" by (simp add: dropWhile_eq_self_iff)
  with 1 show ?thesis by (simp add: strip_number_def)
qed

lemma py_int_decimal_index: "decimal_index ds \<Longrightarrow> py_int ds = Some (dec_value ds)"
proof -
  assume a: "decimal_index ds"
  then obtain c cs where ds: "ds = c # cs" and c: "isdigit c" and all: "list_all isdigit ds"
    by (cases ds) (auto simp: decimal_index_def)
  from c have "take_sign (c # cs) = (False, c # cs)" using isdigit_plain [of c] by simp
  with ds all show ?thesis
    by (simp add: py_int_def strip_number_digits digitpart_digits del: digitpart.simps take_sign.simps)
qed

lemma pauli_token_to_operator_fst:
  "fst (pauli_token_to_operator ts) = fst (qubit_terms_loop ts [])"
  by (simp add: pauli_token_to_operator_def split: prod.splits sum.splits list.splits)

text \<open>
  Claim C4, as amended. A token made of the letter X, Y or Z and a decimal qubit index
  appends the operator of that letter on that qubit, wherever it stands in the term; the
  identity is the bare token \<open>"I"\<close> and is always put on qubit 0; the letter I followed
  by an index is not recognised: it prints \<open>Invalid input.\<close> and appends nothing, so that
  a term made of it alone raises \<open>IndexError\<close>.
\<close>

theorem pauli_token_forms:
  "decimal_index ds \<Longrightarrow>
     qubit_terms_loop ((CHR ''X'' # ds) # rest) qs = qubit_terms_loop rest (qs @ [PauliX (dec_value ds)]) \<and>
     qubit_terms_loop ((CHR ''Y'' # ds) # rest) qs = qubit_terms_loop rest (qs @ [PauliY (dec_value ds)]) \<and>
     qubit_terms_loop ((CHR ''Z'' # ds) # rest) qs = qubit_terms_loop rest (qs @ [PauliZ (dec_value ds)]) \<and>
     qubit_terms_loop (''I'' # rest) qs = qubit_terms_loop rest (qs @ [Identity 0]) \<and>
     qubit_terms_loop ((CHR ''I'' # ds) # rest) qs =
       (case qubit_terms_loop rest qs of (out, r) \<Rightarrow> (''Invalid input.'' # out, r)) \<and>
     pauli_token_to_operator [CHR ''X'' # ds] = ([], Inr (PauliX (dec_value ds))) \<and>
     pauli_token_to_operator [CHR ''Y'' # ds] = ([], Inr (PauliY (dec_value ds))) \<and>
     pauli_token_to_operator [CHR ''Z'' # ds] = ([], Inr (PauliZ (dec_value ds))) \<and>
     pauli_token_to_operator [''I''] = ([], Inr (Identity 0)) \<and>
     pauli_token_to_operator [CHR ''I'' # ds] = ([''Invalid input.''], Inl IndexError)"
proof -
  assume a: "decimal_index ds"
  then have i: "py_int ds = Some (dec_value ds)" by (rule py_int_decimal_index)
  from a have ne: "ds \<noteq> []" by (simp add: decimal_index_def)
  from i ne show ?thesis
    by (simp add: pauli_token_to_operator_def)
qed

theorem pauli_token_forms_witness:
  "decimal_index ''12'' \<and>
   pauli_token_to_operator [''X12''] = ([], Inr (PauliX 12)) \<and>
   pauli_token_to_operator [''Y12''] = ([], Inr (PauliY 12)) \<and>
   pauli_token_to_operator [''Z12''] = ([], Inr (PauliZ 12)) \<and>
   pauli_token_to_operator [''I12''] = ([''Invalid input.''], Inl IndexError)"
proof -
  have d: "decimal_index ''12''" by (simp add: decimal_index_def isdigit_def)
  have v: "dec_value ''12'' = 12" by (simp add: dec_value_def digit_val_def)
  show ?thesis using d pauli_token_forms [OF d, of "[]" "[]"] by (simp only: v simp_thms)
qed

text \<open>
  Claim C4 as stated fails on the letter I with an index: \<open>"I3"\<close> is a letter I and
  the decimal index 3, but it yields no identity on qubit 3.
\<close>

theorem identity_with_index_counterexample:
  "decimal_index ''3'' \<and>
   pauli_token_to_operator [''I3''] = ([''Invalid input.''], Inl IndexError) \<and>
   pauli_token_to_operator [''Z0'', ''I1''] = ([''Invalid input.''], Inr (PauliZ 0))"
  by code_simp

lemma qubit_terms_loop_replicate:
  "\<exists>n. fst (qubit_terms_loop ts qs) = replicate n ''Invalid input.''"
proof -
  have "set (fst (qubit_terms_loop ts qs)) \<subseteq> {''Invalid input.''}"
    by (rule qubit_terms_loop_lines)
  then have "\<forall>y \<in> set (fst (qubit_terms_loop ts qs)). y = ''Invalid input.''"
    by auto
  then have "replicate (length (fst (qubit_terms_loop ts qs))) ''Invalid input.'' =
      fst (qubit_terms_loop ts qs)"
    by (rule replicate_length_same)
  then show ?thesis by metis
qed

text \<open>
  Claim C2, as amended. A malformed Pauli token raises nothing itself and changes
  neither the operator nor the exception of its term: the term gives what it gives
  without the token. When none of the tokens before it in the term raises, the token is
  reached and exactly one more line \<open>Invalid input.\<close> is printed; when one of them raises,
  the term ends there and nothing is printed for the token. A term whose Pauli tokens are
  all malformed prints one line for each and raises \<open>IndexError\<close>.
\<close>

theorem malformed_token_skipped:
  assumes "malformed t"
  shows "snd (pauli_token_to_operator (pre @ t # post)) = snd (pauli_token_to_operator (pre @ post)) \<and>
    (\<forall>qs. snd (qubit_terms_loop pre []) = Inr qs \<longrightarrow>
       fst (pauli_token_to_operator (pre @ t # post)) =
         ''Invalid input.'' # fst (pauli_token_to_operator (pre @ post))) \<and>
    (\<forall>e. snd (qubit_terms_loop pre []) = Inl e \<longrightarrow>
       pauli_token_to_operator (pre @ t # post) = (fst (qubit_terms_loop pre []), Inl e) \<and>
       pauli_token_to_operator (pre @ post) = (fst (qubit_terms_loop pre []), Inl e)) \<and>
    ((\<forall>u \<in> set post. malformed u) \<longrightarrow>
       pauli_token_to_operator (t # post) =
         (replicate (Suc (length post)) ''Invalid input.'', Inl IndexError))"
proof (intro conjI allI impI)
  have step: "qubit_terms_loop (t # post) qs =
      (case qubit_terms_loop post qs of (out, r) \<Rightarrow> (''Invalid input.'' # out, r))" for qs
    using assms by (simp add: qubit_terms_loop_Cons token_result_malformed [symmetric]
        del: qubit_terms_loop.simps)
  show "snd (pauli_token_to_operator (pre @ t # post)) = snd (pauli_token_to_operator (pre @ post))"
    by (simp add: pauli_token_to_operator_def qubit_terms_loop_append step
        del: qubit_terms_loop.simps split: prod.splits sum.splits list.splits)
  show "fst (pauli_token_to_operator (pre @ t # post)) =
         ''Invalid input.'' # fst (pauli_token_to_operator (pre @ post))"
    if ok: "snd (qubit_terms_loop pre []) = Inr qs" for qs
  proof -
    obtain n where n: "fst (qubit_terms_loop pre []) = replicate n ''Invalid input.''"
      using qubit_terms_loop_replicate by blast
    with ok have 1: "qubit_terms_loop pre [] = (replicate n ''Invalid input.'', Inr qs)"
      by (cases "qubit_terms_loop pre []") simp
    obtain o2 r where 2: "qubit_terms_loop post qs = (o2, r)"
      by (cases "qubit_terms_loop post qs")
    have "fst (qubit_terms_loop (pre @ t # post) []) =
        replicate n ''Invalid input.'' @ ''Invalid input.'' # o2"
      by (simp add: qubit_terms_loop_append 1 2 step del: qubit_terms_loop.simps)
    moreover have "fst (qubit_terms_loop (pre @ post) []) = replicate n ''Invalid input.'' @ o2"
      by (simp add: qubit_terms_loop_append 1 2 del: qubit_terms_loop.simps)
    ultimately show ?thesis
      by (simp add: pauli_token_to_operator_fst replicate_app_Cons_same)
  qed
  show "pauli_token_to_operator (pre @ t # post) = (fst (qubit_terms_loop pre []), Inl e)"
    if bad: "snd (qubit_terms_loop pre []) = Inl e" for e
  proof -
    from bad obtain o1 where 1: "qubit_terms_loop pre [] = (o1, Inl e)"
      by (cases "qubit_terms_loop pre []") simp
    then have "qubit_terms_loop (pre @ t # post) [] = (o1, Inl e)"
      by (simp add: qubit_terms_loop_append del: qubit_terms_loop.simps)
    with 1 show ?thesis by (simp add: pauli_token_to_operator_def)
  qed
  show "pauli_token_to_operator (pre @ post) = (fst (qubit_terms_loop pre []), Inl e)"
    if bad: "snd (qubit_terms_loop pre []) = Inl e" for e
  proof -
    from bad obtain o1 where 1: "qubit_terms_loop pre [] = (o1, Inl e)"
      by (cases "qubit_terms_loop pre []") simp
    then have "qubit_terms_loop (pre @ post) [] = (o1, Inl e)"
      by (simp add: qubit_terms_loop_append del: qubit_terms_loop.simps)
    with 1 show ?thesis by (simp add: pauli_token_to_operator_def)
  qed
  show "pauli_token_to_operator (t # post) =
         (replicate (Suc (length post)) ''Invalid input.'', Inl IndexError)"
    if all: "\<forall>u \<in> set post. malformed u"
  proof -
    have "qubit_terms_loop ts [] = (replicate (length ts) ''Invalid input.'', Inr [])"
      if "\<forall>u \<in> set ts. malformed u" for ts
      using that
      by (induction ts)
         (simp_all add: qubit_terms_loop_Cons token_result_malformed [symmetric]
            del: qubit_terms_loop.simps(2))
    from this [of "t # post"] all assms show ?thesis
      by (simp add: pauli_token_to_operator_def del: qubit_terms_loop.simps)
  qed
qed

theorem malformed_token_skipped_witness:
  "malformed ''Q1'' \<and>
   pauli_token_to_operator [''Z0'', ''Q1'', ''X2''] =
     ([''Invalid input.''], Inr (Matmul (PauliZ 0) (PauliX 2))) \<and>
   pauli_token_to_operator [''X'', ''Q1'', ''Z0''] = ([], Inl ValueError) \<and>
   pauli_token_to_operator [''Q1'', ''R2''] =
     ([''Invalid input.'', ''Invalid input.''], Inl IndexError)"
proof -
  have m: "malformed ''Q1''" by (simp add: malformed_def)
  have e: "pauli_token_to_operator [''Z0'', ''X2''] = ([], Inr (Matmul (PauliZ 0) (PauliX 2)))"
    by code_simp
  have p: "qubit_terms_loop [''Z0''] [] = ([], Inr [PauliZ 0])" by code_simp
  have b: "qubit_terms_loop [''X''] [] = ([], Inl ValueError)" by code_simp
  have r: "\<forall>u \<in> set [''R2'']. malformed u" by (simp add: malformed_def)
  from malformed_token_skipped [OF m, of "[''Z0'']" "[''X2'']"] e p
  have 1: "pauli_token_to_operator [''Z0'', ''Q1'', ''X2''] =
     ([''Invalid input.''], Inr (Matmul (PauliZ 0) (PauliX 2)))"
    by (simp add: prod_eq_iff)
  from malformed_token_skipped [OF m, of "[''X'']" "[''Z0'']"] b
  have 2: "pauli_token_to_operator [''X'', ''Q1'', ''Z0''] = ([], Inl ValueError)"
    by simp
  from malformed_token_skipped [OF m, of "[]" "[''R2'']"] r
  have 3: "pauli_token_to_operator [''Q1'', ''R2''] =
     ([''Invalid input.'', ''Invalid input.''], Inl IndexError)"
    by simp
  from m 1 2 3 show ?thesis by simp
qed

text \<open>
  Claim C2 as stated fails on a term with no valid Pauli token: the malformed token is
  reported, and then the parse fails.
\<close>

theorem malformed_only_term_counterexample:
  "malformed ''Q0'' \<and>
   parse_hamiltonian_input ''+ 1.0 Q0'' = ([''Invalid input.''], Inl IndexError)"
  by code_simp

subsection \<open>The loop over the terms\<close>

lemma pauli_token_to_operator_lines:
  "set (fst (pauli_token_to_operator ts)) \<subseteq> {''Invalid input.''}"
  using qubit_terms_loop_lines [of ts "[]"] by (simp add: pauli_token_to_operator_fst)

lemma pauli_token_to_operator_printed:
  "pauli_token_to_operator ts = (out, Inr t) \<Longrightarrow>
   out = replicate (length (filter malformed ts)) ''Invalid input.''"
  by (auto simp: pauli_token_to_operator_def dest: qubit_terms_loop_printed
      split: prod.splits sum.splits list.splits)

lemma parse_term_Inr:
  "parse_term line = (out, Inr (c, t)) \<longleftrightarrow>
   (\<exists>sign value pauli f.
      tokens_of line = sign # value # pauli \<and> py_float value = Some f \<and>
      pauli_token_to_operator pauli = (out, Inr t) \<and>
      c = (if sign = ''-'' then negate f else f))"
  by (auto simp: parse_term_def tokens_of_def split: list.splits option.splits prod.splits sum.splits)

lemma parse_term_lines: "set (fst (parse_term line)) \<subseteq> {''Invalid input.''}"
proof -
  have "set out \<subseteq> {''Invalid input.''}" if "pauli_token_to_operator ts = (out, r)" for ts out r
    using pauli_token_to_operator_lines [of ts] that by simp
  then show ?thesis
    by (auto simp: parse_term_def split: list.splits option.splits prod.splits sum.splits)
qed

lemma parse_term_printed:
  "parse_term line = (out, Inr r) \<Longrightarrow>
   out = replicate (length (filter malformed (drop 2 (tokens_of line)))) ''Invalid input.''"
  by (cases r) (auto simp: parse_term_Inr dest: pauli_token_to_operator_printed)

lemma parse_loop_Inr:
  "parse_loop lines cs ps = (out, Inr (cs', ps')) \<Longrightarrow>
   \<exists>rs. map (\<lambda>l. snd (parse_term l)) lines = map Inr rs \<and>
        cs' = cs @ map fst rs \<and> ps' = ps @ map snd rs \<and>
        out = concat (map (\<lambda>l. fst (parse_term l)) lines)"
proof (induction lines arbitrary: cs ps out)
  case Nil
  then show ?case by simp
next
  case (Cons l ls)
  from Cons.prems obtain o1 c t o2 where
    1: "parse_term l = (o1, Inr (c, t))" and
    2: "parse_loop ls (cs @ [c]) (ps @ [t]) = (o2, Inr (cs', ps'))" and
    3: "out = o1 @ o2"
    by (auto split: prod.splits sum.splits)
  from Cons.IH [OF 2] obtain rs where
    rs: "map (\<lambda>l. snd (parse_term l)) ls = map Inr rs"
      "cs' = (cs @ [c]) @ map fst rs" "ps' = (ps @ [t]) @ map snd rs"
      "o2 = concat (map (\<lambda>l. fst (parse_term l)) ls)"
    by blast
  show ?case
    by (rule exI [of _ "(c, t) # rs"]) (use 1 3 rs in simp)
qed

lemma parse_loop_total:
  "map (\<lambda>l. snd (parse_term l)) lines = map Inr rs \<Longrightarrow>
   parse_loop lines cs ps =
     (concat (map (\<lambda>l. fst (parse_term l)) lines), Inr (cs @ map fst rs, ps @ map snd rs))"
proof (induction lines arbitrary: cs ps rs)
  case Nil
  then show ?case by simp
next
  case (Cons l ls)
  from Cons.prems obtain r rs' where rs: "rs = r # rs'" and
    1: "snd (parse_term l) = Inr r" and 2: "map (\<lambda>l. snd (parse_term l)) ls = map Inr rs'"
    by (cases rs) auto
  obtain c t where r: "r = (c, t)" by (cases r)
  from 1 r obtain o1 where 3: "parse_term l = (o1, Inr (c, t))" by (cases "parse_term l") simp
  show ?case using Cons.IH [OF 2, of "cs @ [c]" "ps @ [t]"] 3 rs r by simp
qed

lemma parse_loop_first_failure:
  "i < length lines \<Longrightarrow> snd (parse_term (lines ! i)) = Inl e \<Longrightarrow>
   \<forall>j<i. \<exists>r. snd (parse_term (lines ! j)) = Inr r \<Longrightarrow>
   parse_loop lines cs ps =
     (concat (map (\<lambda>l. fst (parse_term l)) (take (Suc i) lines)), Inl e)"
proof (induction lines arbitrary: i cs ps)
  case Nil
  then show ?case by simp
next
  case (Cons l ls)
  show ?case
  proof (cases i)
    case 0
    with Cons.prems obtain o1 where "parse_term l = (o1, Inl e)"
      by (cases "parse_term l") simp
    with 0 show ?thesis by simp
  next
    case (Suc k)
    with Cons.prems(3) have "\<exists>r. snd (parse_term l) = Inr r" by force
    then obtain o1 c t where 1: "parse_term l = (o1, Inr (c, t))"
      by (cases "parse_term l") auto
    from Suc Cons.prems have k: "k < length ls" "snd (parse_term (ls ! k)) = Inl e"
      "\<forall>j<k. \<exists>r. snd (parse_term (ls ! j)) = Inr r"
      by auto
    show ?thesis using Cons.IH [OF k, of "cs @ [c]" "ps @ [t]"] 1 Suc by simp
  qed
qed

lemma parse_loop_fails:
  "l \<in> set lines \<Longrightarrow> snd (parse_term l) = Inl e \<Longrightarrow> \<exists>e'. snd (parse_loop lines cs ps) = Inl e'"
proof (induction lines arbitrary: cs ps)
  case Nil
  then show ?case by simp
next
  case (Cons x xs)
  show ?case
  proof (cases "snd (parse_term x)")
    case (Inl a)
    then show ?thesis by (cases "parse_term x") simp
  next
    case (Inr r)
    with Cons.prems have l: "l \<in> set xs" by auto
    from Inr obtain o1 c t where 1: "parse_term x = (o1, Inr (c, t))"
      by (cases "parse_term x"; cases r) auto
    from Cons.IH [OF l Cons.prems(2), of "cs @ [c]" "ps @ [t]"] obtain e' where
      "snd (parse_loop xs (cs @ [c]) (ps @ [t])) = Inl e'" by blast
    with 1 show ?thesis by (auto split: prod.splits)
  qed
qed

lemma parse_loop_lines: "set (fst (parse_loop lines cs ps)) \<subseteq> {''Invalid input.''}"
proof (induction lines arbitrary: cs ps)
  case Nil
  then show ?case by simp
next
  case (Cons x xs)
  have rest: "set out \<subseteq> {''Invalid input.''}" if "parse_loop xs cs' ps' = (out, r)"
    for cs' ps' out r
    using Cons.IH [of cs' ps'] that by simp
  show ?case using parse_term_lines [of x]
    by (auto split: prod.splits sum.splits dest: rest)
qed

subsection \<open>Signs of floats\<close>

lemma signbit_round_binary64: "signbit (round_binary64 neg q) = neg"
  by (simp add: round_binary64_def Let_def)

lemma floatnumber_signbit: "floatnumber neg body = Some f \<Longrightarrow> signbit f = neg"
  by (auto simp: floatnumber_def signbit_round_binary64 split: prod.splits option.splits if_splits)

lemma py_float_unsigned:
  assumes "py_float v = Some f" and "unsigned_literal v"
  shows "\<not> signbit f"
proof -
  from assms(2) have "fst (take_sign (strip_number v)) = False"
    by (cases "strip_number v") (auto simp: unsigned_literal_def)
  then obtain body where "take_sign (strip_number v) = (False, body)"
    by (cases "take_sign (strip_number v)") auto
  with assms(1) show ?thesis
    by (auto simp: py_float_def split: if_splits dest: floatnumber_signbit)
qed

subsection \<open>A second example, for the properties that follow\<close>

lemma ex_split: "split_py CHR ''S'' ''- 0.5 X1 Y2 S+ 2 Z0'' = [''- 0.5 X1 Y2 '', ''+ 2 Z0'']"
  by code_simp

lemma ex_term1:
  "parse_term ''- 0.5 X1 Y2 '' = ([], Inr (Float True (1 / 2), Matmul (PauliX 1) (PauliY 2)))"
  by code_simp

lemma ex_term2: "parse_term ''+ 2 Z0'' = ([], Inr (Float False 2, PauliZ 0))"
  by code_simp

lemma ex_parse:
  "parse_hamiltonian_input ''- 0.5 X1 Y2 S+ 2 Z0'' =
     ([], Inr \<lparr>H_coeffs = [Float True (1 / 2), Float False 2],
               H_ops = [Matmul (PauliX 1) (PauliY 2), PauliZ 0]\<rparr>)"
  by code_simp

subsection \<open>Order and alignment\<close>

text \<open>
  Claim C3. Whenever \<open>parse_hamiltonian_input\<close> succeeds, the coefficients and the Pauli
  terms of the Hamiltonian are lists of the same length, one entry for each piece of the
  input, and the coefficient and the Pauli term at a position both come from the piece
  of the input at that position.
\<close>

theorem coefficients_and_terms_aligned:
  assumes "parse_hamiltonian_input input_data = (out, Inr H)"
  shows "length (H_coeffs H) = length (H_ops H) \<and>
         length (H_coeffs H) = length (split_py CHR ''S'' input_data) \<and>
         (\<forall>i < length (split_py CHR ''S'' input_data).
            snd (parse_term (split_py CHR ''S'' input_data ! i)) = Inr (H_coeffs H ! i, H_ops H ! i))"
proof -
  let ?lines = "split_py CHR ''S'' input_data"
  from assms obtain cs ps where
    loop: "parse_loop ?lines [] [] = (out, Inr (cs, ps))" and H: "qml_Hamiltonian cs ps = Inr H"
    by (auto simp: parse_hamiltonian_input_def split: prod.splits sum.splits)
  from parse_loop_Inr [OF loop] obtain rs where
    rs: "map (\<lambda>l. snd (parse_term l)) ?lines = map Inr rs" and cs: "cs = map fst rs"
    and ps: "ps = map snd rs"
    by auto
  from rs have len: "length rs = length ?lines" by (metis length_map)
  from H cs ps have Hc: "H_coeffs H = map fst rs" and Ho: "H_ops H = map snd rs"
    by (auto simp: qml_Hamiltonian_def split: if_splits)
  have "snd (parse_term (?lines ! i)) = Inr (H_coeffs H ! i, H_ops H ! i)" if "i < length ?lines" for i
  proof -
    from that have "map (\<lambda>l. snd (parse_term l)) ?lines ! i = snd (parse_term (?lines ! i))"
      by simp
    moreover from that len have "map Inr rs ! i = Inr (rs ! i)" by simp
    ultimately show ?thesis using rs that len by (simp add: Hc Ho)
  qed
  with Hc Ho len show ?thesis by simp
qed

theorem coefficients_and_terms_aligned_witness:
  "length [Float True (1 / 2), Float False 2] = length [Matmul (PauliX 1) (PauliY 2), PauliZ 0] \<and>
   snd (parse_term ''- 0.5 X1 Y2 '') = Inr (Float True (1 / 2), Matmul (PauliX 1) (PauliY 2)) \<and>
   snd (parse_term ''+ 2 Z0'') = Inr (Float False 2, PauliZ 0)"
proof -
  note a = coefficients_and_terms_aligned [OF ex_parse]
  from a [THEN conjunct2, THEN conjunct2, rule_format, of 0]
  have 0: "snd (parse_term ''- 0.5 X1 Y2 '') =
      Inr (Float True (1 / 2), Matmul (PauliX 1) (PauliY 2))"
    by (simp add: ex_split)
  from a [THEN conjunct2, THEN conjunct2, rule_format, of 1]
  have 1: "snd (parse_term ''+ 2 Z0'') = Inr (Float False 2, PauliZ 0)"
    by (simp add: ex_split)
  from 0 1 show ?thesis by simp
qed

subsection \<open>Well-formed terms\<close>

lemma digitpart_digits_then:
  "list_all isdigit ds \<Longrightarrow> rest = [] \<or> hd rest = CHR ''.'' \<Longrightarrow>
   digitpart (ds @ rest) = (ds, rest)"
proof (induction ds)
  case Nil
  have "\<not> isdigit CHR ''.''" by (simp add: isdigit_def)
  with Nil show ?case by (cases rest) auto
next
  case (Cons c cs)
  then have IH: "digitpart (cs @ rest) = (cs, rest)" and c: "isdigit c"
    and cs: "list_all isdigit cs"
    by simp_all
  have nu: "\<not> isdigit CHR ''_''" "CHR ''.'' \<noteq> CHR ''_''" by (simp_all add: isdigit_def)
  show ?case
  proof (cases "cs @ rest")
    case Nil
    with c IH show ?thesis by simp
  next
    case (Cons u r)
    have "u \<noteq> CHR ''_''"
    proof (cases cs)
      case Nil
      with Cons Cons.prems(2) \<open>cs @ rest = u # r\<close> show ?thesis using nu by auto
    next
      case (Cons a as)
      with cs \<open>cs @ rest = u # r\<close> have "isdigit u" by simp
      with nu show ?thesis by auto
    qed
    with c IH Cons show ?thesis by (simp split: list.splits)
  qed
qed

lemma decimal_string_parts:
  assumes "decimal_string v"
  obtains ip fp where "list_all isdigit ip" "list_all isdigit fp"
    "v = ip \<or> v = ip @ CHR ''.'' # fp" "v = ip \<longrightarrow> fp = []" "ip \<noteq> [] \<or> fp \<noteq> []"
    "takeWhile isdigit v = ip" "dropWhile isdigit v = (if v = ip then [] else CHR ''.'' # fp)"
proof (cases "dropWhile isdigit v")
  case Nil
  then have all: "list_all isdigit v" by (simp add: list_all_iff)
  then have tw: "takeWhile isdigit v = v" by (simp add: list_all_iff)
  from assms have ne: "v \<noteq> []" unfolding decimal_string_def Nil by simp
  from Nil all tw ne show ?thesis
    by (intro that [of v "[]"]) simp_all
next
  case (Cons c r)
  with assms have c: "c = CHR ''.''" and r: "list_all isdigit r"
    and ne: "takeWhile isdigit v \<noteq> [] \<or> r \<noteq> []"
    by (simp_all add: decimal_string_def)
  let ?ip = "takeWhile isdigit v"
  have v: "v = ?ip @ CHR ''.'' # r"
    using takeWhile_dropWhile_id [of isdigit v] Cons c by simp
  have ip: "list_all isdigit ?ip" by (simp add: list_all_iff) (meson set_takeWhileD)
  have "v \<noteq> ?ip" using v by (metis append_self_conv list.distinct(1))
  with v ip r ne Cons c show ?thesis
    by (intro that [of ?ip r]) simp_all
qed


lemma digit_or_point_plain:
  "isdigit c \<or> c = CHR ''.'' \<Longrightarrow>
   \<not> number_space c \<and> c \<noteq> CHR ''-'' \<and> c \<noteq> CHR ''+'' \<and> lower c = c \<and>
   c \<noteq> CHR ''i'' \<and> c \<noteq> CHR ''n''"
  by (auto simp: isdigit_def number_space_def lower_def)

lemma strip_number_plain:
  assumes "v \<noteq> []" "\<not> number_space (hd v)" "\<not> number_space (last v)"
  shows "strip_number v = v"
proof -
  from assms have 1: "dropWhile number_space v = v" by (simp add: dropWhile_eq_self_iff)
  from assms have "\<not> number_space (hd (rev v))" by (simp add: hd_rev)
  then have "dropWhile number_space (rev v) = rev v" by (simp add: dropWhile_eq_self_iff)
  with 1 show ?thesis by (simp add: strip_number_def)
qed

lemma filter_isdigit_digits: "list_all isdigit ds \<Longrightarrow> filter isdigit ds = ds"
  by (simp add: list_all_iff)

lemma power_int_10_neg: "of_int a * power_int (10::rat) (0 - int n) = of_int a / 10 ^ n"
proof -
  have "power_int (10::rat) (- int n) = inverse (10 ^ n)"
    by (simp only: power_int_minus power_int_of_nat)
  then show ?thesis by (simp add: divide_inverse)
qed

lemma py_float_decimal_string:
  assumes "decimal_string v"
  shows "py_float v = Some (round_binary64 False (decimal_rat v))"
proof -
  from assms obtain ip fp where ip: "list_all isdigit ip" and fp: "list_all isdigit fp"
    and v: "v = ip \<or> v = ip @ CHR ''.'' # fp" and whole: "v = ip \<longrightarrow> fp = []"
    and ne: "ip \<noteq> [] \<or> fp \<noteq> []"
    and dw: "dropWhile isdigit v = (if v = ip then [] else CHR ''.'' # fp)"
    by (rule decimal_string_parts)
  have chars: "\<forall>c \<in> set v. isdigit c \<or> c = CHR ''.''"
    using v ip fp by (auto simp: list_all_iff)
  have vne: "v \<noteq> []" using v ne whole by auto
  then have "hd v \<in> set v" "last v \<in> set v" by simp_all
  with chars have h: "isdigit (hd v) \<or> hd v = CHR ''.''" and l: "isdigit (last v) \<or> last v = CHR ''.''"
    by blast+
  from vne digit_or_point_plain [OF h] digit_or_point_plain [OF l]
  have st: "strip_number v = v" by (intro strip_number_plain) simp_all
  from vne digit_or_point_plain [OF h] have ts: "take_sign v = (False, v)"
    by (cases v) simp_all
  from vne digit_or_point_plain [OF h] have hl: "hd (map lower v) = hd v"
    by (cases v) simp_all
  have names: "map lower v \<noteq> ''inf''" "map lower v \<noteq> ''infinity''" "map lower v \<noteq> ''nan''"
    using hl digit_or_point_plain [OF h] by (metis list.sel(1))+
  have dp: "digitpart v = (ip, if v = ip then [] else CHR ''.'' # fp)"
  proof (cases "v = ip")
    case True
    with ip show ?thesis by (simp add: digitpart_digits)
  next
    case False
    with v have "v = ip @ CHR ''.'' # fp" by simp
    with False digitpart_digits_then [OF ip, of "CHR ''.'' # fp"] show ?thesis by simp
  qed
  have fr: "fraction (if v = ip then [] else CHR ''.'' # fp) = (fp, [])"
    using whole fp by (simp add: fraction_def digitpart_digits del: digitpart.simps)
  have digits: "filter isdigit v = ip @ fp"
  proof -
    have "\<not> isdigit CHR ''.''" by (simp add: isdigit_def)
    with v whole ip fp show ?thesis by (auto simp: filter_isdigit_digits)
  qed
  have behind: "tl (dropWhile isdigit v) = fp" using dw whole by simp
  have "floatnumber False v =
      Some (round_binary64 False (of_int (dec_value (ip @ fp)) * power_int 10 (0 - int (length fp))))"
    using ne by (simp add: floatnumber_def dp fr exponent_def del: digitpart.simps)
  also have "of_int (dec_value (ip @ fp)) * power_int (10::rat) (0 - int (length fp)) = decimal_rat v"
    by (simp only: power_int_10_neg decimal_rat_def digits behind)
  finally show ?thesis
    using names by (simp add: py_float_def st ts)
qed

lemma negate_round_binary64: "negate (round_binary64 neg q) = round_binary64 (\<not> neg) q"
  by (simp add: round_binary64_def Let_def)

lemma token_result_accepted:
  "accepted_pauli_token t \<Longrightarrow> token_result t = Inr (Some (token_operator t))"
  by (cases t)
     (auto simp: accepted_pauli_token_def token_result_def token_operator_def
        py_int_decimal_index)

lemma qubit_terms_loop_accepted:
  "list_all accepted_pauli_token ts \<Longrightarrow>
   qubit_terms_loop ts qs = ([], Inr (qs @ map token_operator ts))"
  by (induction ts arbitrary: qs)
     (simp_all add: qubit_terms_loop_Cons token_result_accepted del: qubit_terms_loop.simps(2))

lemma pauli_token_to_operator_accepted:
  "list_all accepted_pauli_token ts \<Longrightarrow> ts \<noteq> [] \<Longrightarrow>
   pauli_token_to_operator ts = ([], Inr (term_operator ts))"
  by (cases ts)
     (simp_all add: pauli_token_to_operator_def qubit_terms_loop_accepted term_operator_def
        del: qubit_terms_loop.simps)

lemma parse_term_well_formed:
  assumes "well_formed_term accepted_pauli_token line"
  shows "parse_term line = ([], Inr (term_pair line))"
proof -
  from assms obtain sign "value" pauli where
    t: "tokens_of line = sign # value # pauli" and d: "decimal_string value"
    and p: "pauli \<noteq> []" "list_all accepted_pauli_token pauli"
    by (auto simp: well_formed_term_def split: list.splits)
  from t have "split_py CHR '' '' (strip line) = sign # value # pauli"
    by (simp add: tokens_of_def)
  then show ?thesis
    using t py_float_decimal_string [OF d] pauli_token_to_operator_accepted [OF p(2) p(1)]
    by (simp add: parse_term_def term_pair_def negate_round_binary64)
qed

text \<open>
  Claim C5, as amended. On an input whose every piece between the delimiters is a sign
  token \<open>"+"\<close> or \<open>"-"\<close>, a decimal string and one or more Pauli tokens, each of them one
  of the letters X, Y, Z with a decimal qubit index or the bare letter I, the parse
  succeeds and prints nothing. The pairs stand in the order of the pieces: the
  coefficient is the float of the magnitude token with its sign bit set exactly when the
  sign token is \<open>"-"\<close>, and the term is the product of the operators of the Pauli tokens
  from left to right.
\<close>

theorem terms_in_input_order:
  assumes "\<forall>line \<in> set (split_py CHR ''S'' input_data). well_formed_term accepted_pauli_token line"
  shows "parse_hamiltonian_input input_data =
           ([], Inr \<lparr>H_coeffs = map (\<lambda>line. fst (term_pair line)) (split_py CHR ''S'' input_data),
                     H_ops = map (\<lambda>line. snd (term_pair line)) (split_py CHR ''S'' input_data)\<rparr>) \<and>
         (\<forall>line \<in> set (split_py CHR ''S'' input_data).
            \<exists>sign value pauli.
              tokens_of line = sign # value # pauli \<and>
              py_float value = Some (round_binary64 False (decimal_rat value)) \<and>
              term_pair line = (round_binary64 (sign = ''-'') (decimal_rat value), term_operator pauli))"
proof
  let ?lines = "split_py CHR ''S'' input_data"
  from assms have t: "parse_term l = ([], Inr (term_pair l))" if "l \<in> set ?lines" for l
    using that by (simp add: parse_term_well_formed)
  then have m: "map (\<lambda>l. snd (parse_term l)) ?lines = map Inr (map term_pair ?lines)"
    by simp
  from t have o: "concat (map (\<lambda>l. fst (parse_term l)) ?lines) = []" by simp
  from parse_loop_total [OF m, of "[]" "[]"] o
  show "parse_hamiltonian_input input_data =
           ([], Inr \<lparr>H_coeffs = map (\<lambda>line. fst (term_pair line)) ?lines,
                     H_ops = map (\<lambda>line. snd (term_pair line)) ?lines\<rparr>)"
    by (simp add: parse_hamiltonian_input_def qml_Hamiltonian_def comp_def)
  show "\<forall>line \<in> set ?lines.
            \<exists>sign value pauli.
              tokens_of line = sign # value # pauli \<and>
              py_float value = Some (round_binary64 False (decimal_rat value)) \<and>
              term_pair line = (round_binary64 (sign = ''-'') (decimal_rat value), term_operator pauli)"
  proof
    fix line assume "line \<in> set ?lines"
    with assms have "well_formed_term accepted_pauli_token line" by blast
    then obtain sign "value" pauli where
      t: "tokens_of line = sign # value # pauli" and d: "decimal_string value"
      by (auto simp: well_formed_term_def split: list.splits)
    with py_float_decimal_string [OF d]
    show "\<exists>sign value pauli.
              tokens_of line = sign # value # pauli \<and>
              py_float value = Some (round_binary64 False (decimal_rat value)) \<and>
              term_pair line = (round_binary64 (sign = ''-'') (decimal_rat value), term_operator pauli)"
      by (simp add: term_pair_def)
  qed
qed

lemma ex_pair1:
  "term_pair ''- 0.5 X1 Y2 '' = (Float True (1 / 2), Matmul (PauliX 1) (PauliY 2))"
  by code_simp

lemma ex_pair2: "term_pair ''+ 2 Z0'' = (Float False 2, PauliZ 0)"
  by code_simp

theorem terms_in_input_order_witness:
  "parse_hamiltonian_input ''- 0.5 X1 Y2 S+ 2 Z0'' =
     ([], Inr \<lparr>H_coeffs = [Float True (1 / 2), Float False 2],
               H_ops = [Matmul (PauliX 1) (PauliY 2), PauliZ 0]\<rparr>)"
proof -
  have h: "\<forall>line \<in> set (split_py CHR ''S'' ''- 0.5 X1 Y2 S+ 2 Z0'').
      well_formed_term accepted_pauli_token line"
    by code_simp
  from terms_in_input_order [OF h] show ?thesis
    by (simp add: ex_split ex_pair1 ex_pair2)
qed

text \<open>
  Claim C5 as stated fails on a term that is well formed in the words of the
  specification and uses the letter I with an index: the parse raises.
\<close>

theorem well_formed_identity_counterexample:
  "well_formed_term grammar_pauli_token ''+ 1.0 I0'' \<and>
   parse_hamiltonian_input ''+ 1.0 I0'' = ([''Invalid input.''], Inl IndexError)"
  by code_simp

subsection \<open>The sign token\<close>

lemma parse_success_term:
  assumes "parse_hamiltonian_input input_data = (out, Inr H)"
    and "i < length (split_py CHR ''S'' input_data)"
  shows "snd (parse_term (split_py CHR ''S'' input_data ! i)) = Inr (H_coeffs H ! i, H_ops H ! i)"
proof -
  let ?lines = "split_py CHR ''S'' input_data"
  from assms(1) obtain cs ps where
    loop: "parse_loop ?lines [] [] = (out, Inr (cs, ps))" and H: "qml_Hamiltonian cs ps = Inr H"
    by (auto simp: parse_hamiltonian_input_def split: prod.splits sum.splits)
  from parse_loop_Inr [OF loop] obtain rs where
    rs: "map (\<lambda>l. snd (parse_term l)) ?lines = map Inr rs" and cs: "cs = map fst rs"
    and ps: "ps = map snd rs"
    by auto
  from rs have len: "length rs = length ?lines" by (metis length_map)
  from H cs ps have Hc: "H_coeffs H = map fst rs" and Ho: "H_ops H = map snd rs"
    by (auto simp: qml_Hamiltonian_def split: if_splits)
  from assms(2) have "map (\<lambda>l. snd (parse_term l)) ?lines ! i = snd (parse_term (?lines ! i))"
    by simp
  moreover from assms(2) len have "map Inr rs ! i = Inr (rs ! i)" by simp
  ultimately show ?thesis using rs assms(2) len by (simp add: Hc Ho)
qed

text \<open>
  Claim C10, as amended. The coefficient of a term is negated exactly when its sign token
  is exactly \<open>"-"\<close>: the coefficient is then the float of the magnitude token with the
  sign bit flipped. With any other sign token the coefficient is the float of the
  magnitude token as it is, so it is positive exactly when that float is; its sign bit
  is clear when the magnitude token carries no minus sign of its own. No error comes
  from the sign token: two terms that differ only in sign tokens other than \<open>"-"\<close> are
  parsed to the same result, an exception included.
\<close>

theorem sign_token_only_minus_negates:
  "(parse_hamiltonian_input input_data = (out, Inr H) \<and>
    i < length (split_py CHR ''S'' input_data) \<and>
    tokens_of (split_py CHR ''S'' input_data ! i) = sign # value # pauli \<longrightarrow>
      (sign \<noteq> ''-'' \<longrightarrow> py_float value = Some (H_coeffs H ! i)) \<and>
      (sign = ''-'' \<longrightarrow>
         (case H_coeffs H ! i of
            Float s m \<Rightarrow> py_float value = Some (Float (\<not> s) m)
          | Inf s \<Rightarrow> py_float value = Some (Inf (\<not> s))
          | NaN \<Rightarrow> py_float value = Some NaN)) \<and>
      (sign \<noteq> ''-'' \<longrightarrow> unsigned_literal value \<longrightarrow> \<not> signbit (H_coeffs H ! i)) \<and>
      (sign \<noteq> ''-'' \<longrightarrow>
         positive (H_coeffs H ! i) = (\<exists>f. py_float value = Some f \<and> positive f))) \<and>
   (tokens_of line1 = sign1 # value' # pauli' \<and> tokens_of line2 = sign2 # value' # pauli' \<and>
    sign1 \<noteq> ''-'' \<and> sign2 \<noteq> ''-'' \<longrightarrow>
      parse_term line1 = parse_term line2)"
proof (intro conjI impI)
  assume a: "parse_hamiltonian_input input_data = (out, Inr H) \<and>
    i < length (split_py CHR ''S'' input_data) \<and>
    tokens_of (split_py CHR ''S'' input_data ! i) = sign # value # pauli"
  let ?line = "split_py CHR ''S'' input_data ! i"
  let ?c = "H_coeffs H ! i"
  from a have "snd (parse_term ?line) = Inr (?c, H_ops H ! i)"
    by (intro parse_success_term) simp_all
  then have "parse_term ?line = (fst (parse_term ?line), Inr (?c, H_ops H ! i))"
    by (cases "parse_term ?line") simp
  with a obtain f where f: "py_float value = Some f"
    and c: "?c = (if sign = ''-'' then negate f else f)"
    unfolding parse_term_Inr by auto
  show plain: "py_float value = Some ?c" if "sign \<noteq> ''-''"
    using that f c by simp
  show "case ?c of
            Float s m \<Rightarrow> py_float value = Some (Float (\<not> s) m)
          | Inf s \<Rightarrow> py_float value = Some (Inf (\<not> s))
          | NaN \<Rightarrow> py_float value = Some NaN" if "sign = ''-''"
    using that f c by (cases f) simp_all
  show "\<not> signbit ?c" if "sign \<noteq> ''-''" "unsigned_literal value"
    using py_float_unsigned [OF plain [OF that(1)] that(2)] .
  show "positive ?c = (\<exists>f. py_float value = Some f \<and> positive f)" if "sign \<noteq> ''-''"
    using plain [OF that] by simp
next
  assume "tokens_of line1 = sign1 # value' # pauli' \<and> tokens_of line2 = sign2 # value' # pauli' \<and>
    sign1 \<noteq> ''-'' \<and> sign2 \<noteq> ''-''"
  then have "split_py CHR '' '' (strip line1) = sign1 # value' # pauli'"
    "split_py CHR '' '' (strip line2) = sign2 # value' # pauli'"
    "sign1 \<noteq> ''-''" "sign2 \<noteq> ''-''"
    by (simp_all add: tokens_of_def)
  then show "parse_term line1 = parse_term line2"
    by (simp add: parse_term_def split: option.splits prod.splits sum.splits)
qed

lemma ex_sign_parse:
  "parse_hamiltonian_input ''x 2 Z0 S- 2 Z0'' =
     ([], Inr \<lparr>H_coeffs = [Float False 2, Float True 2], H_ops = [PauliZ 0, PauliZ 0]\<rparr>)"
  by code_simp

lemma ex_sign_split: "split_py CHR ''S'' ''x 2 Z0 S- 2 Z0'' = [''x 2 Z0 '', ''- 2 Z0'']"
  by code_simp

lemma ex_tokens_x: "tokens_of ''x 2 Z0 '' = [''x'', ''2'', ''Z0'']"
  by code_simp

lemma ex_tokens_minus: "tokens_of ''- 2 Z0'' = [''-'', ''2'', ''Z0'']"
  by code_simp

lemma ex_tokens_plus: "tokens_of ''+ 2 Z0'' = [''+'', ''2'', ''Z0'']"
  by code_simp

theorem sign_token_only_minus_negates_witness:
  "parse_hamiltonian_input ''x 2 Z0 S- 2 Z0'' =
     ([], Inr \<lparr>H_coeffs = [Float False 2, Float True 2], H_ops = [PauliZ 0, PauliZ 0]\<rparr>) \<and>
   py_float ''2'' = Some (Float False 2) \<and>
   unsigned_literal ''2'' \<and> \<not> signbit (Float False 2) \<and>
   parse_term ''x 2 Z0 '' = parse_term ''+ 2 Z0''"
proof -
  let ?H = "\<lparr>H_coeffs = [Float False 2, Float True 2], H_ops = [PauliZ 0, PauliZ 0]\<rparr>"
  have u: "unsigned_literal ''2''" by code_simp
  note a = sign_token_only_minus_negates [of "''x 2 Z0 S- 2 Z0''" "[]" ?H 0 "''x''" "''2''" "[''Z0'']"
      "''x 2 Z0 ''" "''x''" "''2''" "[''Z0'']" "''+ 2 Z0''" "''+''"]
  note b = sign_token_only_minus_negates [of "''x 2 Z0 S- 2 Z0''" "[]" ?H 1 "''-''" "''2''" "[''Z0'']"
      "''x 2 Z0 ''" "''x''" "''2''" "[''Z0'']" "''+ 2 Z0''" "''+''"]
  from a have 1: "py_float ''2'' = Some (Float False 2)"
    by (simp add: ex_sign_parse ex_sign_split ex_tokens_x)
  from b have 2: "py_float ''2'' = Some (Float False 2)"
    by (simp add: ex_sign_parse ex_sign_split ex_tokens_minus)
  from a have 3: "parse_term ''x 2 Z0 '' = parse_term ''+ 2 Z0''"
    by (simp add: ex_tokens_x ex_tokens_plus)
  from 1 2 3 u show ?thesis by (simp add: ex_sign_parse)
qed

text \<open>
  Claim C10 as stated fails where the float of the magnitude token is not positive: under
  the sign token \<open>"+"\<close> the magnitude \<open>-2\<close> gives the coefficient -2.0 and the magnitude
  \<open>0\<close> gives 0.0.
\<close>

theorem signed_magnitude_counterexample:
  "parse_hamiltonian_input ''+ -2 Z0'' =
     ([], Inr \<lparr>H_coeffs = [Float True 2], H_ops = [PauliZ 0]\<rparr>) \<and>
   \<not> positive (Float True 2) \<and>
   parse_hamiltonian_input ''+ 0 Z0'' =
     ([], Inr \<lparr>H_coeffs = [Float False 0], H_ops = [PauliZ 0]\<rparr>) \<and>
   \<not> positive (Float False 0)"
  by code_simp

subsection \<open>The example of the specification\<close>

text \<open>
  Claim C1. Parsing \<open>"+ 1.0 Z0 S- 1.0 X0"\<close> prints nothing and gives exactly two terms:
  the coefficients 1.0 and -1.0 in this order, with \<open>PauliZ\<close> on qubit 0 and then
  \<open>PauliX\<close> on qubit 0.
\<close>

theorem parse_two_term_hamiltonian:
  "parse_hamiltonian_input ''+ 1.0 Z0 S- 1.0 X0'' =
     ([], Inr \<lparr>H_coeffs = [Float False 1, Float True 1], H_ops = [PauliZ 0, PauliX 0]\<rparr>)"
  by code_simp

section \<open>Properties of the eigensolver script and of the output\<close>

lemma ex_Z0:
  "parse_hamiltonian_input ''+ 1.0 Z0'' =
     ([], Inr \<lparr>H_coeffs = [Float False 1], H_ops = [PauliZ 0]\<rparr>)"
  by code_simp

lemma ex_Z0_Q1:
  "parse_hamiltonian_input ''+ 1.0 Z0 Q1'' =
     ([''Invalid input.''], Inr \<lparr>H_coeffs = [Float False 1], H_ops = [PauliZ 0]\<rparr>)"
  by code_simp

lemma ex_energies:
  "found_energies (basis_framework str) () () \<lparr>H_coeffs = [Float False 1], H_ops = [PauliZ 0]\<rparr> =
     [- 1, 1, - 1]"
  by (simp add: found_energies_def basis_framework_def basis_energy_def basis_step_def
      cost_fn_def num_eigen_def num_iter_def num_layers_def threshold_def overlap_weight_def
      real_of_float_def upt_rec numeral_eq_Suc)

lemma ex_find:
  "find_excited_states (basis_framework str_unit) () ()
     \<lparr>H_coeffs = [Float False 1], H_ops = [PauliZ 0]\<rparr> = ''-1.0,1.0,-1.0''"
  by (simp add: find_excited_states_def ex_energies) (simp add: basis_framework_def str_unit_def)

lemma ex_main_vqe:
  "main_vqe (basis_framework str_unit) () () ''+ 1.0 Z0 Q1'' =
     ([''Invalid input.'', ''-1.0,1.0,-1.0''], Inr ())"
  by (simp add: main_vqe_def ex_Z0_Q1 ex_find)

lemma length_vqe_loop:
  "length (vqe_loop F H is energies prev_params rng opt) = length energies"
  by (induction "is" arbitrary: energies prev_params rng opt) (auto split: prod.splits)

lemma found_energies_three:
  "\<exists>e0 e1 e2. found_energies F rng opt H = [e0, e1, e2]"
proof -
  have "length (found_energies F rng opt H) = 3"
    by (simp add: found_energies_def length_vqe_loop)
  then show ?thesis
    by (auto simp: length_Suc_conv numeral_3_eq_3)
qed

lemma concat_replicate:
  "concat (map (\<lambda>l. replicate (f l) x) ls) = replicate (sum_list (map f ls)) x"
  by (induction ls) (simp_all add: replicate_add)

lemma parse_hamiltonian_input_printed:
  assumes "parse_hamiltonian_input input_data = (out, Inr H)"
  shows "out = replicate (malformed_count input_data) ''Invalid input.''"
proof -
  let ?lines = "split_py CHR ''S'' input_data"
  let ?n = "\<lambda>line. length (filter malformed (drop 2 (tokens_of line)))"
  from assms obtain cs ps where loop: "parse_loop ?lines [] [] = (out, Inr (cs, ps))"
    by (auto simp: parse_hamiltonian_input_def split: prod.splits sum.splits)
  from parse_loop_Inr [OF loop] obtain rs where
    rs: "map (\<lambda>l. snd (parse_term l)) ?lines = map Inr rs" and
    out: "out = concat (map (\<lambda>l. fst (parse_term l)) ?lines)"
    by auto
  have "fst (parse_term l) = replicate (?n l) ''Invalid input.''" if "l \<in> set ?lines" for l
  proof -
    from rs that obtain r where "snd (parse_term l) = Inr r"
      by (metis (no_types, lifting) image_iff list.set_map)
    then have "parse_term l = (fst (parse_term l), Inr r)" by (simp add: prod_eq_iff)
    then show ?thesis by (rule parse_term_printed)
  qed
  then have "map (\<lambda>l. fst (parse_term l)) ?lines = map (\<lambda>l. replicate (?n l) ''Invalid input.'') ?lines"
    by simp
  with out show ?thesis by (simp add: concat_replicate malformed_count_def)
qed

text \<open>
  Claim C7. The energies are returned in the order in which the three searches find
  them: nothing sorts them. On the Hamiltonian of \<open>"+ 1.0 Z0"\<close>, which has the two
  energies -1 and 1 only, the exact search finds -1, then 1, and then -1 again, since
  the third state has to overlap one of the two found before.
\<close>

theorem found_energies_not_sorted:
  "parse_hamiltonian_input ''+ 1.0 Z0'' =
     ([], Inr \<lparr>H_coeffs = [Float False 1], H_ops = [PauliZ 0]\<rparr>) \<and>
   found_energies (basis_framework str) () () \<lparr>H_coeffs = [Float False 1], H_ops = [PauliZ 0]\<rparr> =
     [- 1, 1, - 1] \<and>
   \<not> sorted (found_energies (basis_framework str) () ()
       \<lparr>H_coeffs = [Float False 1], H_ops = [PauliZ 0]\<rparr>)"
  by (simp add: ex_Z0 ex_energies)

text \<open>
  Claim C9, as amended. On success the rotation script prints exactly one line, the
  float of the circuit, which is the sine of the angle. On success the eigensolver script prints one line
  \<open>Invalid input.\<close> for each malformed Pauli token of the input and then one line with
  three floats joined by commas; this is the only line when no token is malformed.
\<close>

theorem scripts_print_on_success:
  "(main_simple_circuits nonfinite str angle_str = (out1, Inr ()) \<longrightarrow> (\<exists>line. out1 = [line])) \<and>
   (py_float angle_str = Some (Float s m) \<longrightarrow>
      main_simple_circuits nonfinite str angle_str =
        ([str (sin (real_of_float s m))], Inr ())) \<and>
   (main_vqe F rng opt input_data = (out2, Inr ()) \<longrightarrow>
      (\<exists>e0 e1 e2.
         out2 = replicate (malformed_count input_data) ''Invalid input.''
                  @ [join '','' [str_float F e0, str_float F e1, str_float F e2]]))"
proof (intro conjI impI)
  assume "main_simple_circuits nonfinite str angle_str = (out1, Inr ())"
  then show "\<exists>line. out1 = [line]"
    by (auto simp: main_simple_circuits_def simple_circuits_30_sin
        split: option.splits pyfloat.splits sum.splits)
next
  assume "py_float angle_str = Some (Float s m)"
  then show "main_simple_circuits nonfinite str angle_str =
        ([str (sin (real_of_float s m))], Inr ())"
    by (simp add: main_simple_circuits_def simple_circuits_30_sin)
next
  assume a: "main_vqe F rng opt input_data = (out2, Inr ())"
  then obtain out H where p: "parse_hamiltonian_input input_data = (out, Inr H)"
    and o: "out2 = out @ [find_excited_states F rng opt H]"
    by (auto simp: main_vqe_def split: prod.splits sum.splits)
  from found_energies_three [of F rng opt H] obtain e0 e1 e2 where
    "found_energies F rng opt H = [e0, e1, e2]" by blast
  then have "find_excited_states F rng opt H = join '','' [str_float F e0, str_float F e1, str_float F e2]"
    by (simp add: find_excited_states_def)
  with o parse_hamiltonian_input_printed [OF p]
  show "\<exists>e0 e1 e2.
         out2 = replicate (malformed_count input_data) ''Invalid input.''
                  @ [join '','' [str_float F e0, str_float F e1, str_float F e2]]"
    by blast
qed

lemma ex_float_0: "py_float ''0'' = Some (Float False 0)"
  by code_simp

lemma ex_count: "malformed_count ''+ 1.0 Z0 Q1'' = 1"
  by code_simp

theorem scripts_print_on_success_witness:
  "main_simple_circuits (Inr ''nan'') str_unit ''0'' = ([''0.0''], Inr ()) \<and>
   (\<exists>e0 e1 e2.
      [''Invalid input.'', ''-1.0,1.0,-1.0''] =
        replicate 1 ''Invalid input.''
          @ [join '','' [str_float (basis_framework str_unit) e0,
                        str_float (basis_framework str_unit) e1,
                        str_float (basis_framework str_unit) e2]])"
proof -
  note a = scripts_print_on_success [of "Inr ''nan''" str_unit "''0''" "[''0.0'']" False 0
      "basis_framework str_unit" "()" "()" "''+ 1.0 Z0 Q1''" "[''Invalid input.'', ''-1.0,1.0,-1.0'']"]
  from a ex_float_0 have 1: "main_simple_circuits (Inr ''nan'') str_unit ''0'' = ([''0.0''], Inr ())"
    by (simp add: real_of_float_def str_unit_def)
  from a ex_main_vqe show ?thesis
    by (simp only: 1 ex_count simp_thms)
qed

text \<open>
  Claim C9 as stated fails on an input with a malformed Pauli token beside a valid one:
  the run succeeds with two lines on standard output.
\<close>

theorem diagnostic_lines_counterexample:
  "parse_hamiltonian_input ''+ 1.0 Z0 Q1'' =
     ([''Invalid input.''], Inr \<lparr>H_coeffs = [Float False 1], H_ops = [PauliZ 0]\<rparr>) \<and>
   main_vqe (basis_framework str_unit) () () ''+ 1.0 Z0 Q1'' =
     ([''Invalid input.'', ''-1.0,1.0,-1.0''], Inr ())"
  by (simp add: ex_Z0_Q1 ex_main_vqe)

subsection \<open>Magnitudes that are not numbers\<close>

lemma main_vqe_parse_failure:
  "parse_hamiltonian_input input_data = (out, Inl e) \<Longrightarrow>
   main_vqe F rng opt input_data = (out, Inl e)"
  by (simp add: main_vqe_def)

lemma parse_hamiltonian_input_loop_failure:
  "parse_loop (split_py CHR ''S'' input_data) [] [] = (out, Inl e) \<Longrightarrow>
   parse_hamiltonian_input input_data = (out, Inl e)"
  by (simp add: parse_hamiltonian_input_def)

text \<open>
  Claim C6, as amended. When \<open>float\<close> rejects the whole input of the rotation script,
  the script raises \<open>ValueError\<close> and prints nothing. When \<open>float\<close> rejects the magnitude
  token of a term of the eigensolver's input, the script ends with an uncaught exception
  and prints no result; the only lines it may have printed are the lines
  \<open>Invalid input.\<close> of the terms before, and the exception is the \<open>ValueError\<close> of
  \<open>float\<close> when all the terms before were parsed.
\<close>

theorem invalid_magnitude_raises:
  "(py_float angle_str = None \<longrightarrow>
      main_simple_circuits nonfinite str angle_str = ([], Inl ValueError)) \<and>
   (i < length (split_py CHR ''S'' input_data) \<and>
    tokens_of (split_py CHR ''S'' input_data ! i) = sign # value # pauli \<and>
    py_float value = None \<longrightarrow>
      (\<exists>out e. main_vqe F rng opt input_data = (out, Inl e) \<and> set out \<subseteq> {''Invalid input.''}) \<and>
      ((\<forall>j<i. \<exists>r. snd (parse_term (split_py CHR ''S'' input_data ! j)) = Inr r) \<longrightarrow>
         snd (main_vqe F rng opt input_data) = Inl ValueError))"
proof (intro conjI impI)
  assume "py_float angle_str = None"
  then show "main_simple_circuits nonfinite str angle_str = ([], Inl ValueError)"
    by (simp add: main_simple_circuits_def)
next
  let ?lines = "split_py CHR ''S'' input_data"
  assume a: "i < length ?lines \<and> tokens_of (?lines ! i) = sign # value # pauli \<and>
    py_float value = None"
  then have t: "parse_term (?lines ! i) = ([], Inl ValueError)"
    by (simp add: parse_term_def tokens_of_def)
  from a have "?lines ! i \<in> set ?lines" by simp
  from parse_loop_fails [OF this, of ValueError "[]" "[]"] t obtain e' where
    "snd (parse_loop ?lines [] []) = Inl e'" by auto
  then have "parse_loop ?lines [] [] = (fst (parse_loop ?lines [] []), Inl e')"
    by (simp add: prod_eq_iff)
  then have "main_vqe F rng opt input_data = (fst (parse_loop ?lines [] []), Inl e')"
    by (intro main_vqe_parse_failure parse_hamiltonian_input_loop_failure)
  with parse_loop_lines [of ?lines "[]" "[]"]
  show "\<exists>out e. main_vqe F rng opt input_data = (out, Inl e) \<and> set out \<subseteq> {''Invalid input.''}"
    by blast
  show "snd (main_vqe F rng opt input_data) = Inl ValueError"
    if "\<forall>j<i. \<exists>r. snd (parse_term (?lines ! j)) = Inr r"
  proof -
    from a t have "i < length ?lines" "snd (parse_term (?lines ! i)) = Inl ValueError" by simp_all
    from parse_loop_first_failure [OF this that, of "[]" "[]"]
    show ?thesis
      by (simp add: main_vqe_parse_failure parse_hamiltonian_input_loop_failure)
  qed
qed

lemma ex_abc: "py_float ''abc'' = None"
  by code_simp

lemma ex_bad_split:
  "split_py CHR ''S'' ''+ 1.0 Q0 Z0 S+ abc Z0'' = [''+ 1.0 Q0 Z0 '', ''+ abc Z0'']"
  by code_simp

lemma ex_bad_tokens: "tokens_of ''+ abc Z0'' = [''+'', ''abc'', ''Z0'']"
  by code_simp

lemma ex_bad_first:
  "parse_term ''+ 1.0 Q0 Z0 '' = ([''Invalid input.''], Inr (Float False 1, PauliZ 0))"
  by code_simp

lemma ex_bad_parse:
  "parse_hamiltonian_input ''+ 1.0 Q0 Z0 S+ abc Z0'' = ([''Invalid input.''], Inl ValueError)"
  by code_simp

theorem invalid_magnitude_raises_witness:
  "py_float ''abc'' = None \<and>
   main_simple_circuits (Inr ''nan'') str_unit ''abc'' = ([], Inl ValueError) \<and>
   (\<exists>out e. main_vqe (basis_framework str_unit) () () ''+ 1.0 Q0 Z0 S+ abc Z0'' = (out, Inl e) \<and>
      set out \<subseteq> {''Invalid input.''}) \<and>
   snd (main_vqe (basis_framework str_unit) () () ''+ 1.0 Q0 Z0 S+ abc Z0'') = Inl ValueError"
proof -
  note a = invalid_magnitude_raises [of "''abc''" "Inr ''nan''" str_unit 1
      "''+ 1.0 Q0 Z0 S+ abc Z0''" "''+''" "''abc''" "[''Z0'']" "basis_framework str_unit" "()" "()"]
  have h: "1 < length (split_py CHR ''S'' ''+ 1.0 Q0 Z0 S+ abc Z0'') \<and>
    tokens_of (split_py CHR ''S'' ''+ 1.0 Q0 Z0 S+ abc Z0'' ! 1) = [''+'', ''abc'', ''Z0''] \<and>
    py_float ''abc'' = None"
    by (simp add: ex_bad_split ex_bad_tokens ex_abc)
  have e: "\<forall>j<1. \<exists>r. snd (parse_term (split_py CHR ''S'' ''+ 1.0 Q0 Z0 S+ abc Z0'' ! j)) = Inr r"
    by (simp add: ex_bad_split ex_bad_first)
  from a h e ex_abc show ?thesis by blast
qed

text \<open>
  Claim C6 as stated fails twice. The magnitude \<open>nan\<close> is no decimal string, and
  \<open>float\<close> accepts it: the parse succeeds. And the magnitude \<open>abc\<close> of a second term is
  rejected after the first term has printed a line.
\<close>

theorem invalid_magnitude_counterexample:
  "\<not> decimal_string ''nan'' \<and>
   parse_hamiltonian_input ''+ nan Z0'' = ([], Inr \<lparr>H_coeffs = [NaN], H_ops = [PauliZ 0]\<rparr>) \<and>
   \<not> decimal_string ''abc'' \<and>
   parse_hamiltonian_input ''+ 1.0 Q0 Z0 S+ abc Z0'' = ([''Invalid input.''], Inl ValueError)"
  by code_simp

end
